theory Spec2Isabelle
  imports Complex_Main "HOL-Library.Monad_Syntax"
begin

section \<open>The C++ type double\<close>

text \<open>
  The solver computes on C++ \<open>double\<close>s. A \<open>double\<close> is modelled as an exact real number
  or one of the three IEEE 754 special values. The special values are part of the model
  because the solver divides without checking the divisor: in C++ \<open>x / 0.0\<close> is an
  infinity or a NaN, where HOL's \<open>x / 0\<close> on the reals would be \<open>0\<close>.

  Not modelled: rounding, overflow of a finite result to an infinity, underflow, and the
  sign of zero. Every divisor in the modelled code is a sum accumulated from the literal
  \<open>0\<close>, which IEEE addition never turns into a negative zero, so a zero divisor is
  always \<open>+0\<close> and the quotient by \<open>Fin 0\<close> below is the quotient by \<open>+0\<close>.
\<close>

datatype double = Fin real | PInf | NInf | NaN

definition signed_inf :: "real \<Rightarrow> double" where
  "signed_inf r = (if 0 < r then PInf else if r < 0 then NInf else NaN)"

instantiation double :: comm_monoid_add
begin

definition zero_double :: double where
  "zero_double = Fin 0"

fun plus_double :: "double \<Rightarrow> double \<Rightarrow> double" where
  "plus_double NaN y = NaN"
| "plus_double x NaN = NaN"
| "plus_double (Fin a) (Fin b) = Fin (a + b)"
| "plus_double (Fin a) PInf = PInf"
| "plus_double (Fin a) NInf = NInf"
| "plus_double PInf (Fin b) = PInf"
| "plus_double NInf (Fin b) = NInf"
| "plus_double PInf PInf = PInf"
| "plus_double NInf NInf = NInf"
| "plus_double PInf NInf = NaN"
| "plus_double NInf PInf = NaN"

instance
proof
  fix x y z :: double
  show "0 + x = x"
    by (cases x) (simp_all add: zero_double_def)
  show "x + y = y + x"
    by (cases x; cases y) simp_all
  show "x + y + z = x + (y + z)"
    by (cases x; cases y; cases z) simp_all
qed

end

instantiation double :: "{one, times, uminus, minus, divide, ord}"
begin

definition one_double :: double where
  "one_double = Fin 1"

fun times_double :: "double \<Rightarrow> double \<Rightarrow> double" where
  "times_double NaN y = NaN"
| "times_double x NaN = NaN"
| "times_double (Fin a) (Fin b) = Fin (a * b)"
| "times_double (Fin a) PInf = signed_inf a"
| "times_double (Fin a) NInf = signed_inf (- a)"
| "times_double PInf (Fin b) = signed_inf b"
| "times_double NInf (Fin b) = signed_inf (- b)"
| "times_double PInf PInf = PInf"
| "times_double NInf NInf = PInf"
| "times_double PInf NInf = NInf"
| "times_double NInf PInf = NInf"

fun uminus_double :: "double \<Rightarrow> double" where
  "uminus_double (Fin a) = Fin (- a)"
| "uminus_double PInf = NInf"
| "uminus_double NInf = PInf"
| "uminus_double NaN = NaN"

definition minus_double :: "double \<Rightarrow> double \<Rightarrow> double" where
  "minus_double x y = x + (- y)"

fun divide_double :: "double \<Rightarrow> double \<Rightarrow> double" where
  "divide_double NaN y = NaN"
| "divide_double x NaN = NaN"
| "divide_double (Fin a) (Fin b) = (if b = 0 then signed_inf a else Fin (a / b))"
| "divide_double (Fin a) PInf = Fin 0"
| "divide_double (Fin a) NInf = Fin 0"
| "divide_double PInf (Fin b) = (if 0 \<le> b then PInf else NInf)"
| "divide_double NInf (Fin b) = (if 0 \<le> b then NInf else PInf)"
| "divide_double PInf PInf = NaN"
| "divide_double NInf NInf = NaN"
| "divide_double PInf NInf = NaN"
| "divide_double NInf PInf = NaN"

text \<open>The comparisons of IEEE 754: every comparison with a NaN is false.\<close>

fun less_eq_double :: "double \<Rightarrow> double \<Rightarrow> bool" where
  "less_eq_double NaN y = False"
| "less_eq_double x NaN = False"
| "less_eq_double (Fin a) (Fin b) = (a \<le> b)"
| "less_eq_double NInf y = True"
| "less_eq_double x PInf = True"
| "less_eq_double PInf y = False"
| "less_eq_double x NInf = False"

fun less_double :: "double \<Rightarrow> double \<Rightarrow> bool" where
  "less_double NaN y = False"
| "less_double x NaN = False"
| "less_double (Fin a) (Fin b) = (a < b)"
| "less_double PInf y = False"
| "less_double x NInf = False"
| "less_double NInf y = True"
| "less_double x PInf = True"

instance ..

end

instantiation double :: inverse
begin

definition inverse_double :: "double \<Rightarrow> double" where
  "inverse_double x = divide (Fin 1) x"

instance ..

end

text \<open>\<open>sqrt\<close> of \<open>cmath\<close>: NaN on a negative argument.\<close>

fun dsqrt :: "double \<Rightarrow> double" where
  "dsqrt (Fin a) = (if 0 \<le> a then Fin (sqrt a) else NaN)"
| "dsqrt PInf = PInf"
| "dsqrt NInf = NaN"
| "dsqrt NaN = NaN"

text \<open>The conversion of an \<open>int\<close> operand in a mixed \<open>double\<close>/\<open>int\<close> expression.\<close>

definition double_of_int :: "int \<Rightarrow> double" where
  "double_of_int n = Fin (of_int n)"

section \<open>The two loop shapes of the source\<close>

text \<open>
  \<open>double temp_value = t; for (i = i0; i < n; i++) temp_value += f(i);\<close>
\<close>

function for_sum :: "(nat \<Rightarrow> double) \<Rightarrow> nat \<Rightarrow> nat \<Rightarrow> double \<Rightarrow> double" where
  "for_sum f i n temp_value =
     (if i < n then for_sum f (Suc i) n (temp_value + f i) else temp_value)"
  by pat_completeness auto
termination
  by (relation "measure (\<lambda>(f, i, n, t). n - i)") auto

text \<open>
  \<open>for (i = i0; i < n; i++) v.push_back(f(i));\<close>
\<close>

function for_push :: "(nat \<Rightarrow> 'a) \<Rightarrow> nat \<Rightarrow> nat \<Rightarrow> 'a list \<Rightarrow> 'a list" where
  "for_push f i n v = (if i < n then for_push f (Suc i) n (v @ [f i]) else v)"
  by pat_completeness auto
termination
  by (relation "measure (\<lambda>(f, i, n, v). n - i)") auto

section \<open>runMLEM (src/mlem/main.cpp)\<close>

text \<open>
  The four reference parameters of \<open>runMLEM\<close>. They are four distinct vectors at the
  call in \<open>main\<close>; the record keeps them apart, and the function returns the
  record as the call leaves it. \<open>num_measurements\<close> and \<open>num_bins\<close> are sizes of
  vectors in \<open>main\<close> and are natural numbers here; \<open>cutoff\<close> and \<open>mlem_index\<close>
  are \<open>int\<close>s (the index stays below \<open>cutoff\<close> before each increment, so it never
  overflows).

  The record describes a call whose vectors are distinct objects and cover the indices
  used, as \<open>main\<close> calls it: \<open>xs ! i\<close> and \<open>xs[i := v]\<close> stand for
  \<open>operator[]\<close> inside the vectors. Calls that pass a vector twice, and indices past
  the end of a vector, are expressed by \<open>runMLEM_h\<close> below, on a store of vectors;
  \<open>mlem_loop_h_eq\<close> proves that the two agree on the calls the record describes.
\<close>

record mlem_refs =
  measurements :: "double list"
  spectrum :: "double list"
  nns_response :: "double list list"
  mlem_ratio :: "double list"

definition mlem_estimate :: "nat \<Rightarrow> nat \<Rightarrow> double list list \<Rightarrow> double list \<Rightarrow> double list" where
  "mlem_estimate num_measurements num_bins response spec =
     for_push (\<lambda>i_meas. for_sum (\<lambda>i_bin. response ! i_meas ! i_bin * spec ! i_bin) 0 num_bins 0)
       0 num_measurements []"

definition transpose_response :: "nat \<Rightarrow> nat \<Rightarrow> double list list \<Rightarrow> double list list" where
  "transpose_response num_measurements num_bins response =
     for_push (\<lambda>i_bin. for_push (\<lambda>i_meas. response ! i_meas ! i_bin) 0 num_measurements [])
       0 num_bins []"

text \<open>The ratio loop pushes onto \<open>mlem_ratio\<close>, which the iteration has cleared.\<close>

definition ratio_loop :: "nat \<Rightarrow> double list \<Rightarrow> double list \<Rightarrow> double list \<Rightarrow> double list" where
  "ratio_loop num_measurements meas estimate ratio =
     for_push (\<lambda>i_meas. meas ! i_meas / estimate ! i_meas) 0 num_measurements ratio"

definition mlem_correction :: "nat \<Rightarrow> nat \<Rightarrow> double list list \<Rightarrow> double list \<Rightarrow> double list" where
  "mlem_correction num_measurements num_bins tresp ratio =
     for_push (\<lambda>i_bin. for_sum (\<lambda>i_meas. tresp ! i_bin ! i_meas * ratio ! i_meas) 0 num_measurements 0)
       0 num_bins []"

definition mlem_normalization :: "nat \<Rightarrow> nat \<Rightarrow> double list list \<Rightarrow> double list" where
  "mlem_normalization num_measurements num_bins tresp =
     for_push (\<lambda>i_bin. for_sum (\<lambda>i_meas. tresp ! i_bin ! i_meas) 0 num_measurements 0)
       0 num_bins []"

function apply_correction ::
  "nat \<Rightarrow> nat \<Rightarrow> double list \<Rightarrow> double list \<Rightarrow> double list \<Rightarrow> double list" where
  "apply_correction i_bin num_bins correction normalization spec =
     (if i_bin < num_bins
      then apply_correction (Suc i_bin) num_bins correction normalization
             (spec[i_bin := spec ! i_bin * correction ! i_bin / normalization ! i_bin])
      else spec)"
  by pat_completeness auto
termination
  by (relation "measure (\<lambda>(i, n, c, m, s). n - i)") auto

text \<open>
  The loop that sets \<open>continue_mlem\<close>: it starts from \<open>false\<close> and breaks with
  \<open>true\<close> at the first ratio that is \<open>>= 1+error\<close> or \<open><= 1-error\<close>.
\<close>

function continue_mlem :: "nat \<Rightarrow> nat \<Rightarrow> double \<Rightarrow> double list \<Rightarrow> bool" where
  "continue_mlem i_meas num_measurements error ratio =
     (if i_meas < num_measurements
      then (if ratio ! i_meas \<ge> 1 + error \<or> ratio ! i_meas \<le> 1 - error then True
            else continue_mlem (Suc i_meas) num_measurements error ratio)
      else False)"
  by pat_completeness auto
termination
  by (relation "measure (\<lambda>(i, n, e, r). n - i)") auto

text \<open>One pass through the body of the \<open>mlem_index\<close> loop, up to the spectrum update.\<close>

definition mlem_body :: "nat \<Rightarrow> nat \<Rightarrow> mlem_refs \<Rightarrow> mlem_refs" where
  "mlem_body num_measurements num_bins s =
     (let s1 = s\<lparr>mlem_ratio := []\<rparr>;
          estimate = mlem_estimate num_measurements num_bins (nns_response s1) (spectrum s1);
          tresp = transpose_response num_measurements num_bins (nns_response s1);
          s2 = s1\<lparr>mlem_ratio := ratio_loop num_measurements (measurements s1) estimate (mlem_ratio s1)\<rparr>;
          correction = mlem_correction num_measurements num_bins tresp (mlem_ratio s2);
          normalization = mlem_normalization num_measurements num_bins tresp
      in s2\<lparr>spectrum := apply_correction 0 num_bins correction normalization (spectrum s2)\<rparr>)"

function mlem_loop :: "int \<Rightarrow> double \<Rightarrow> nat \<Rightarrow> nat \<Rightarrow> int \<Rightarrow> mlem_refs \<Rightarrow> int \<times> mlem_refs" where
  "mlem_loop cutoff error num_measurements num_bins mlem_index s =
     (if mlem_index < cutoff
      then (let s' = mlem_body num_measurements num_bins s
            in if continue_mlem 0 num_measurements error (mlem_ratio s')
               then mlem_loop cutoff error num_measurements num_bins (mlem_index + 1) s'
               else (mlem_index, s'))
      else (mlem_index, s))"
  by pat_completeness auto
termination
  by (relation "measure (\<lambda>(c, e, m, b, i, s). nat (c - i))") auto

definition runMLEM :: "int \<Rightarrow> double \<Rightarrow> nat \<Rightarrow> nat \<Rightarrow> mlem_refs \<Rightarrow> int \<times> mlem_refs" where
  "runMLEM cutoff error num_measurements num_bins s =
     mlem_loop cutoff error num_measurements num_bins 1 s"

text \<open>
  The state after \<open>k\<close> passes through the loop body, whatever the convergence test
  says on the way.
\<close>

definition mlem_steps :: "nat \<Rightarrow> nat \<Rightarrow> nat \<Rightarrow> mlem_refs \<Rightarrow> mlem_refs" where
  "mlem_steps num_measurements num_bins k s = ((mlem_body num_measurements num_bins) ^^ k) s"

text \<open>A value that is not below zero: non-negative (possibly \<open>+Inf\<close>) or NaN.\<close>

definition not_negative :: "double \<Rightarrow> bool" where
  "not_negative x \<longleftrightarrow> 0 \<le> x \<or> x = NaN"

section \<open>runMLEM on a store of vectors\<close>

text \<open>
  The record \<open>mlem_refs\<close> keeps the four reference parameters apart and reads them with
  \<open>!\<close>. A caller of the C++ function may pass the same vector twice, or a row of
  \<open>nns_response\<close> as one of the vectors, and \<open>operator[]\<close> past the end of a vector
  is undefined behaviour. Both are expressed here: the vectors live in a store, the
  parameters are addresses into it (\<open>nns_response\<close> is the list of the addresses of its
  rows, which \<open>runMLEM\<close> never resizes), every statement reads and writes the store as
  it is at that moment, and a read or write out of range makes the result \<open>None\<close>.
\<close>

type_synonym addr = nat

type_synonym store = "addr \<Rightarrow> double list"

record mlem_call =
  measurements_at :: addr
  spectrum_at :: addr
  nns_response_at :: "addr list"
  mlem_ratio_at :: addr

text \<open>\<open>xs[i]\<close>: defined inside the vector only.\<close>

definition rd :: "'a list \<Rightarrow> nat \<Rightarrow> 'a option" where
  "rd xs i = (if i < length xs then Some (xs ! i) else None)"

function for_sum_ub ::
  "(nat \<Rightarrow> double option) \<Rightarrow> nat \<Rightarrow> nat \<Rightarrow> double \<Rightarrow> double option" where
  "for_sum_ub f i n temp_value =
     (if i < n
      then (case f i of None \<Rightarrow> None
            | Some x \<Rightarrow> for_sum_ub f (Suc i) n (temp_value + x))
      else Some temp_value)"
  by pat_completeness auto
termination
  by (relation "measure (\<lambda>(f, i, n, t). n - i)") auto

function for_push_ub ::
  "(nat \<Rightarrow> 'a option) \<Rightarrow> nat \<Rightarrow> nat \<Rightarrow> 'a list \<Rightarrow> 'a list option" where
  "for_push_ub f i n v =
     (if i < n
      then (case f i of None \<Rightarrow> None
            | Some x \<Rightarrow> for_push_ub f (Suc i) n (v @ [x]))
      else Some v)"
  by pat_completeness auto
termination
  by (relation "measure (\<lambda>(f, i, n, v). n - i)") auto

definition mlem_estimate_h :: "nat \<Rightarrow> nat \<Rightarrow> mlem_call \<Rightarrow> store \<Rightarrow> double list option" where
  "mlem_estimate_h num_measurements num_bins a h =
     for_push_ub (\<lambda>i_meas.
       for_sum_ub (\<lambda>i_bin. do {
           row \<leftarrow> rd (nns_response_at a) i_meas;
           r \<leftarrow> rd (h row) i_bin;
           x \<leftarrow> rd (h (spectrum_at a)) i_bin;
           Some (r * x) }) 0 num_bins 0)
       0 num_measurements []"

definition transpose_response_h ::
  "nat \<Rightarrow> nat \<Rightarrow> mlem_call \<Rightarrow> store \<Rightarrow> double list list option" where
  "transpose_response_h num_measurements num_bins a h =
     for_push_ub (\<lambda>i_bin.
       for_push_ub (\<lambda>i_meas. do {
           row \<leftarrow> rd (nns_response_at a) i_meas;
           rd (h row) i_bin }) 0 num_measurements [])
       0 num_bins []"

text \<open>
  \<open>mlem_ratio.push_back(measurements[i_meas]/mlem_estimate[i_meas])\<close>: each pass reads
  the measurements as the store holds them after the pushes before it.
\<close>

function ratio_loop_h ::
  "mlem_call \<Rightarrow> double list \<Rightarrow> nat \<Rightarrow> nat \<Rightarrow> store \<Rightarrow> store option" where
  "ratio_loop_h a estimate i_meas num_measurements h =
     (if i_meas < num_measurements
      then (case rd (h (measurements_at a)) i_meas of None \<Rightarrow> None
            | Some y \<Rightarrow>
               (case rd estimate i_meas of None \<Rightarrow> None
                | Some e \<Rightarrow>
                   ratio_loop_h a estimate (Suc i_meas) num_measurements
                     (h(mlem_ratio_at a := h (mlem_ratio_at a) @ [y / e]))))
      else Some h)"
  by pat_completeness auto
termination
  by (relation "measure (\<lambda>(a, e, i, n, h). n - i)") auto

definition mlem_correction_h ::
  "nat \<Rightarrow> nat \<Rightarrow> double list list \<Rightarrow> mlem_call \<Rightarrow> store \<Rightarrow> double list option" where
  "mlem_correction_h num_measurements num_bins tresp a h =
     for_push_ub (\<lambda>i_bin.
       for_sum_ub (\<lambda>i_meas. do {
           col \<leftarrow> rd tresp i_bin;
           t \<leftarrow> rd col i_meas;
           r \<leftarrow> rd (h (mlem_ratio_at a)) i_meas;
           Some (t * r) }) 0 num_measurements 0)
       0 num_bins []"

definition mlem_normalization_h :: "nat \<Rightarrow> nat \<Rightarrow> double list list \<Rightarrow> double list option" where
  "mlem_normalization_h num_measurements num_bins tresp =
     for_push_ub (\<lambda>i_bin.
       for_sum_ub (\<lambda>i_meas. do {
           col \<leftarrow> rd tresp i_bin;
           rd col i_meas }) 0 num_measurements 0)
       0 num_bins []"

text \<open>
  \<open>spectrum[i_bin] = spectrum[i_bin]*mlem_correction[i_bin]/mlem_normalization[i_bin]\<close>,
  a write into the store.
\<close>

function apply_correction_h ::
  "mlem_call \<Rightarrow> double list \<Rightarrow> double list \<Rightarrow> nat \<Rightarrow> nat \<Rightarrow> store \<Rightarrow> store option" where
  "apply_correction_h a correction normalization i_bin num_bins h =
     (if i_bin < num_bins
      then (case rd (h (spectrum_at a)) i_bin of None \<Rightarrow> None
            | Some x \<Rightarrow>
               (case rd correction i_bin of None \<Rightarrow> None
                | Some c \<Rightarrow>
                   (case rd normalization i_bin of None \<Rightarrow> None
                    | Some n \<Rightarrow>
                       apply_correction_h a correction normalization (Suc i_bin) num_bins
                         (h(spectrum_at a := (h (spectrum_at a))[i_bin := x * c / n])))))
      else Some h)"
  by pat_completeness auto
termination
  by (relation "measure (\<lambda>(a, c, m, i, n, h). n - i)") auto

function continue_mlem_h ::
  "nat \<Rightarrow> nat \<Rightarrow> double \<Rightarrow> mlem_call \<Rightarrow> store \<Rightarrow> bool option" where
  "continue_mlem_h i_meas num_measurements error a h =
     (if i_meas < num_measurements
      then (case rd (h (mlem_ratio_at a)) i_meas of None \<Rightarrow> None
            | Some r \<Rightarrow>
               if r \<ge> 1 + error \<or> r \<le> 1 - error then Some True
               else continue_mlem_h (Suc i_meas) num_measurements error a h)
      else Some False)"
  by pat_completeness auto
termination
  by (relation "measure (\<lambda>(i, n, e, a, h). n - i)") auto

definition mlem_body_h :: "nat \<Rightarrow> nat \<Rightarrow> mlem_call \<Rightarrow> store \<Rightarrow> store option" where
  "mlem_body_h num_measurements num_bins a h = do {
     let h1 = h(mlem_ratio_at a := []);
     estimate \<leftarrow> mlem_estimate_h num_measurements num_bins a h1;
     tresp \<leftarrow> transpose_response_h num_measurements num_bins a h1;
     h2 \<leftarrow> ratio_loop_h a estimate 0 num_measurements h1;
     correction \<leftarrow> mlem_correction_h num_measurements num_bins tresp a h2;
     normalization \<leftarrow> mlem_normalization_h num_measurements num_bins tresp;
     apply_correction_h a correction normalization 0 num_bins h2 }"

function mlem_loop_h ::
  "int \<Rightarrow> double \<Rightarrow> nat \<Rightarrow> nat \<Rightarrow> mlem_call \<Rightarrow> int \<Rightarrow> store \<Rightarrow> (int \<times> store) option" where
  "mlem_loop_h cutoff error num_measurements num_bins a mlem_index h =
     (if mlem_index < cutoff
      then (case mlem_body_h num_measurements num_bins a h of None \<Rightarrow> None
            | Some h' \<Rightarrow>
               (case continue_mlem_h 0 num_measurements error a h' of None \<Rightarrow> None
                | Some c \<Rightarrow>
                   if c then mlem_loop_h cutoff error num_measurements num_bins a (mlem_index + 1) h'
                   else Some (mlem_index, h')))
      else Some (mlem_index, h))"
  by pat_completeness auto
termination
  by (relation "measure (\<lambda>(c, e, m, b, a, i, h). nat (c - i))") auto

definition runMLEM_h ::
  "int \<Rightarrow> double \<Rightarrow> nat \<Rightarrow> nat \<Rightarrow> mlem_call \<Rightarrow> store \<Rightarrow> (int \<times> store) option" where
  "runMLEM_h cutoff error num_measurements num_bins a h =
     mlem_loop_h cutoff error num_measurements num_bins a 1 h"

text \<open>The four parameters as the store holds them.\<close>

definition refs_of :: "mlem_call \<Rightarrow> store \<Rightarrow> mlem_refs" where
  "refs_of a h =
     \<lparr>measurements = h (measurements_at a), spectrum = h (spectrum_at a),
      nns_response = map h (nns_response_at a), mlem_ratio = h (mlem_ratio_at a)\<rparr>"

text \<open>
  The measurements, the spectrum and the ratio vector are three different vectors, and
  neither the spectrum nor the ratio vector is a row of the response matrix.
\<close>

definition separate :: "mlem_call \<Rightarrow> bool" where
  "separate a \<longleftrightarrow>
     measurements_at a \<noteq> spectrum_at a \<and> measurements_at a \<noteq> mlem_ratio_at a \<and>
     spectrum_at a \<noteq> mlem_ratio_at a \<and>
     spectrum_at a \<notin> set (nns_response_at a) \<and> mlem_ratio_at a \<notin> set (nns_response_at a)"

text \<open>The vectors cover the indices that \<open>num_measurements\<close> and \<open>num_bins\<close> reach.\<close>

definition in_range :: "nat \<Rightarrow> nat \<Rightarrow> mlem_call \<Rightarrow> store \<Rightarrow> bool" where
  "in_range num_measurements num_bins a h \<longleftrightarrow>
     num_measurements \<le> length (h (measurements_at a)) \<and>
     num_bins \<le> length (h (spectrum_at a)) \<and>
     num_measurements \<le> length (nns_response_at a) \<and>
     (\<forall>i<num_measurements. num_bins \<le> length (h (nns_response_at a ! i)))"

text \<open>A store in which every vector is empty.\<close>

definition empty_store :: store where
  "empty_store = (\<lambda>x. [])"

section \<open>The RMS difference of the Poisson samples (main, src/mlem/main.cpp)\<close>

text \<open>
  \<open>main\<close> declares \<open>double sq[52][1];\<close> without an initialiser and then adds to
  \<open>sq[i][j]\<close> with \<open>+=\<close>. The contents of the array at its declaration are
  the parameter \<open>sq\<close> of \<open>sq_sum\<close>. The arrays are lists of rows of one element;
  \<open>poissmat ! i ! k\<close> is bin \<open>i\<close> of sample \<open>k\<close>.
\<close>

definition sq_sum ::
  "nat \<Rightarrow> double list list \<Rightarrow> double list \<Rightarrow> double list list \<Rightarrow> double list list" where
  "sq_sum num_poisson_samples poissmat spec sq =
     for_push (\<lambda>i. for_push (\<lambda>j.
         for_sum (\<lambda>k. (poissmat ! i ! k - spec ! i) * (poissmat ! i ! k - spec ! i))
           0 num_poisson_samples (sq ! i ! j)) 0 1 []) 0 52 []"

definition sq_average :: "nat \<Rightarrow> double list list \<Rightarrow> double list list" where
  "sq_average num_poisson_samples sq =
     for_push (\<lambda>i. for_push (\<lambda>j. sq ! i ! j / double_of_int (int num_poisson_samples)) 0 1 [])
       0 52 []"

definition rms_difference :: "double list list \<Rightarrow> double list list" where
  "rms_difference sq_avg =
     for_push (\<lambda>i. for_push (\<lambda>j. dsqrt (sq_avg ! i ! j)) 0 1 []) 0 52 []"

text \<open>The matrix \<open>s\<close> that \<open>main\<close> prints and saves as the uncertainty of the spectrum.\<close>

definition poisson_rms ::
  "nat \<Rightarrow> double list list \<Rightarrow> double list \<Rightarrow> double list list \<Rightarrow> double list list" where
  "poisson_rms num_poisson_samples poissmat spec sq =
     rms_difference (sq_average num_poisson_samples (sq_sum num_poisson_samples poissmat spec sq))"

section \<open>The loops in closed form\<close>

declare for_sum.simps [simp del] for_push.simps [simp del] apply_correction.simps [simp del]
  continue_mlem.simps [simp del] mlem_loop.simps [simp del]

lemma for_sum_eq: "for_sum f i n t = t + sum f {i..<n}"
proof (induction f i n t rule: for_sum.induct)
  case (1 f i n t)
  show ?case
  proof (cases "i < n")
    case True
    have "for_sum f i n t = for_sum f (Suc i) n (t + f i)"
      using True by (subst for_sum.simps) simp
    also have "\<dots> = t + f i + sum f {Suc i..<n}"
      using 1 True by simp
    also have "\<dots> = t + sum f {i..<n}"
      using True by (simp add: sum.atLeast_Suc_lessThan add.assoc)
    finally show ?thesis .
  next
    case False
    then show ?thesis by (subst for_sum.simps) simp
  qed
qed

lemma for_sum_0: "for_sum f 0 n 0 = (\<Sum>k<n. f k)"
  by (simp add: for_sum_eq atLeast0LessThan)

lemma for_push_eq: "for_push f i n v = v @ map f [i..<n]"
proof (induction f i n v rule: for_push.induct)
  case (1 f i n v)
  show ?case
  proof (cases "i < n")
    case True
    have "for_push f i n v = for_push f (Suc i) n (v @ [f i])"
      using True by (subst for_push.simps) simp
    also have "\<dots> = (v @ [f i]) @ map f [Suc i..<n]"
      using 1 True by simp
    also have "\<dots> = v @ map f [i..<n]"
      using True by (simp add: upt_conv_Cons)
    finally show ?thesis .
  next
    case False
    then show ?thesis by (subst for_push.simps) simp
  qed
qed

lemma for_push_0: "for_push f 0 n [] = map f [0..<n]"
  by (simp add: for_push_eq)

lemma apply_correction_length: "length (apply_correction i n c m spec) = length spec"
proof (induction i n c m spec rule: apply_correction.induct)
  case (1 i n c m spec)
  show ?case
  proof (cases "i < n")
    case True
    then show ?thesis using 1 by (subst apply_correction.simps) simp
  next
    case False
    then show ?thesis by (subst apply_correction.simps) simp
  qed
qed

lemma apply_correction_nth:
  "b < length spec \<Longrightarrow>
   apply_correction i n c m spec ! b =
     (if i \<le> b \<and> b < n then spec ! b * c ! b / m ! b else spec ! b)"
proof (induction i n c m spec rule: apply_correction.induct)
  case (1 i n c m spec)
  show ?case
  proof (cases "i < n")
    case True
    let ?spec' = "spec[i := spec ! i * c ! i / m ! i]"
    have "apply_correction i n c m spec ! b = apply_correction (Suc i) n c m ?spec' ! b"
      using True by (subst apply_correction.simps) simp
    also have "\<dots> = (if Suc i \<le> b \<and> b < n then ?spec' ! b * c ! b / m ! b else ?spec' ! b)"
      using 1 True by simp
    also have "\<dots> = (if i \<le> b \<and> b < n then spec ! b * c ! b / m ! b else spec ! b)"
      using True "1.prems" by (cases "b = i") auto
    finally show ?thesis .
  next
    case False
    then show ?thesis by (subst apply_correction.simps) auto
  qed
qed

lemma continue_mlem_iff:
  "continue_mlem i n e r \<longleftrightarrow> (\<exists>m. i \<le> m \<and> m < n \<and> (1 + e \<le> r ! m \<or> r ! m \<le> 1 - e))"
proof (induction i n e r rule: continue_mlem.induct)
  case (1 i n e r)
  show ?case
  proof (cases "i < n")
    case True
    show ?thesis
    proof (cases "1 + e \<le> r ! i \<or> r ! i \<le> 1 - e")
      case True
      with \<open>i < n\<close> show ?thesis
        by (subst continue_mlem.simps) auto
    next
      case False
      with \<open>i < n\<close> have "continue_mlem i n e r = continue_mlem (Suc i) n e r"
        by (subst continue_mlem.simps) simp
      also have "\<dots> \<longleftrightarrow> (\<exists>m. Suc i \<le> m \<and> m < n \<and> (1 + e \<le> r ! m \<or> r ! m \<le> 1 - e))"
        using 1 \<open>i < n\<close> False by simp
      also have "\<dots> \<longleftrightarrow> (\<exists>m. i \<le> m \<and> m < n \<and> (1 + e \<le> r ! m \<or> r ! m \<le> 1 - e))"
        using False by (metis Suc_leD Suc_leI le_neq_implies_less)
      finally show ?thesis .
    qed
  next
    case False
    then show ?thesis by (subst continue_mlem.simps) auto
  qed
qed

lemma mlem_estimate_nth:
  "m < nm \<Longrightarrow> mlem_estimate nm nb R spec ! m = (\<Sum>b<nb. R ! m ! b * spec ! b)"
  by (simp add: mlem_estimate_def for_push_0 for_sum_0)

lemma transpose_response_nth:
  "b < nb \<Longrightarrow> m < nm \<Longrightarrow> transpose_response nm nb R ! b ! m = R ! m ! b"
  by (simp add: transpose_response_def for_push_0)

lemma ratio_loop_nth:
  "m < nm \<Longrightarrow> ratio_loop nm meas est [] ! m = meas ! m / est ! m"
  by (simp add: ratio_loop_def for_push_0)

lemma mlem_correction_nth:
  "b < nb \<Longrightarrow> mlem_correction nm nb (transpose_response nm nb R) ratio ! b
     = (\<Sum>m<nm. R ! m ! b * ratio ! m)"
  by (simp add: mlem_correction_def for_push_0 for_sum_0 transpose_response_nth)

lemma mlem_normalization_nth:
  "b < nb \<Longrightarrow> mlem_normalization nm nb (transpose_response nm nb R) ! b = (\<Sum>m<nm. R ! m ! b)"
  by (simp add: mlem_normalization_def for_push_0 for_sum_0 transpose_response_nth)

lemma mlem_body_frame:
  "measurements (mlem_body nm nb s) = measurements s"
  "nns_response (mlem_body nm nb s) = nns_response s"
  by (simp_all add: mlem_body_def Let_def)

lemma mlem_body_ratio:
  "mlem_ratio (mlem_body nm nb s) =
     ratio_loop nm (measurements s) (mlem_estimate nm nb (nns_response s) (spectrum s)) []"
  by (simp add: mlem_body_def Let_def)

lemma mlem_body_spectrum:
  "spectrum (mlem_body nm nb s) =
     apply_correction 0 nb
       (mlem_correction nm nb (transpose_response nm nb (nns_response s)) (mlem_ratio (mlem_body nm nb s)))
       (mlem_normalization nm nb (transpose_response nm nb (nns_response s)))
       (spectrum s)"
  by (simp add: mlem_body_def Let_def)

lemma mlem_body_length:
  "length (spectrum (mlem_body nm nb s)) = length (spectrum s)"
  "length (mlem_ratio (mlem_body nm nb s)) = nm"
  by (simp_all add: mlem_body_spectrum apply_correction_length mlem_body_ratio ratio_loop_def for_push_0)


lemma mlem_steps_0: "mlem_steps nm nb 0 s = s"
  by (simp add: mlem_steps_def)

lemma mlem_steps_Suc: "mlem_steps nm nb (Suc k) s = mlem_steps nm nb k (mlem_body nm nb s)"
  by (simp add: mlem_steps_def funpow_swap1)

lemma mlem_steps_Suc': "mlem_steps nm nb (Suc k) s = mlem_body nm nb (mlem_steps nm nb k s)"
  by (simp add: mlem_steps_def)

lemma mlem_steps_add:
  "mlem_steps nm nb (a + b) s = mlem_steps nm nb b (mlem_steps nm nb a s)"
  by (subst add.commute) (simp add: mlem_steps_def funpow_add)

lemma mlem_loop_char:
  assumes "mlem_loop c e nm nb i s = (r, s')"
  shows "(r < c \<longrightarrow> i \<le> r \<and> s' = mlem_steps nm nb (Suc (nat (r - i))) s
            \<and> \<not> continue_mlem 0 nm e (mlem_ratio s')
            \<and> (\<forall>j<nat (r - i). continue_mlem 0 nm e (mlem_ratio (mlem_steps nm nb (Suc j) s))))
       \<and> (\<not> r < c \<longrightarrow> r = max i c \<and> s' = mlem_steps nm nb (nat (c - i)) s
            \<and> (\<forall>j<nat (c - i). continue_mlem 0 nm e (mlem_ratio (mlem_steps nm nb (Suc j) s))))"
  using assms
proof (induction c e nm nb i s arbitrary: r s' rule: mlem_loop.induct)
  case (1 c e nm nb i s)
  let ?s1 = "mlem_body nm nb s"
  show ?case
  proof (cases "i < c")
    case False
    with "1.prems" have "r = i" "s' = s"
      by (simp_all add: mlem_loop.simps)
    with False show ?thesis
      by (simp add: mlem_steps_0 max_def)
  next
    case True
    show ?thesis
    proof (cases "continue_mlem 0 nm e (mlem_ratio ?s1)")
      case False
      with True "1.prems" have "r = i" "s' = ?s1"
        by (simp_all add: mlem_loop.simps Let_def)
      with True False show ?thesis
        by (simp add: mlem_steps_Suc mlem_steps_0)
    next
      case cont: True
      with True "1.prems" have rec: "mlem_loop c e nm nb (i + 1) ?s1 = (r, s')"
        by (simp add: mlem_loop.simps Let_def)
      note IH = "1.IH" [OF True refl cont rec]
      show ?thesis
      proof (cases "r < c")
        case rc: True
        with IH have a: "i + 1 \<le> r" and b: "s' = mlem_steps nm nb (Suc (nat (r - (i + 1)))) ?s1"
          and c: "\<not> continue_mlem 0 nm e (mlem_ratio s')"
          and d: "\<forall>j<nat (r - (i + 1)). continue_mlem 0 nm e (mlem_ratio (mlem_steps nm nb (Suc j) ?s1))"
          by blast+
        from a have n: "nat (r - i) = Suc (nat (r - (i + 1)))" by simp
        have "s' = mlem_steps nm nb (Suc (nat (r - i))) s"
          using b n by (simp add: mlem_steps_Suc)
        moreover have "\<forall>j<nat (r - i). continue_mlem 0 nm e (mlem_ratio (mlem_steps nm nb (Suc j) s))"
        proof (intro allI impI)
          fix j assume j: "j < nat (r - i)"
          show "continue_mlem 0 nm e (mlem_ratio (mlem_steps nm nb (Suc j) s))"
          proof (cases j)
            case 0
            then show ?thesis using cont by (simp add: mlem_steps_Suc mlem_steps_0)
          next
            case (Suc j')
            with j n have "j' < nat (r - (i + 1))" by simp
            with d Suc show ?thesis by (simp add: mlem_steps_Suc)
          qed
        qed
        ultimately show ?thesis using rc a c by simp
      next
        case rc: False
        with IH have a: "r = max (i + 1) c" and b: "s' = mlem_steps nm nb (nat (c - (i + 1))) ?s1"
          and d: "\<forall>j<nat (c - (i + 1)). continue_mlem 0 nm e (mlem_ratio (mlem_steps nm nb (Suc j) ?s1))"
          by blast+
        from True have n: "nat (c - i) = Suc (nat (c - (i + 1)))" by simp
        have "s' = mlem_steps nm nb (nat (c - i)) s"
          using b n by (simp add: mlem_steps_Suc)
        moreover have "\<forall>j<nat (c - i). continue_mlem 0 nm e (mlem_ratio (mlem_steps nm nb (Suc j) s))"
        proof (intro allI impI)
          fix j assume j: "j < nat (c - i)"
          show "continue_mlem 0 nm e (mlem_ratio (mlem_steps nm nb (Suc j) s))"
          proof (cases j)
            case 0
            then show ?thesis using cont by (simp add: mlem_steps_Suc mlem_steps_0)
          next
            case (Suc j')
            with j n have "j' < nat (c - (i + 1))" by simp
            with d Suc show ?thesis by (simp add: mlem_steps_Suc)
          qed
        qed
        moreover have "r = max i c" using a True by simp
        ultimately show ?thesis using rc by simp
      qed
    qed
  qed
qed


lemmas mlem_eval = for_sum.simps for_push.simps apply_correction.simps continue_mlem.simps
  mlem_loop.simps runMLEM_def mlem_body_def mlem_estimate_def transpose_response_def ratio_loop_def
  mlem_correction_def mlem_normalization_def Let_def zero_double_def one_double_def minus_double_def
  signed_inf_def

lemma mlem_loop_steps: "\<exists>k. snd (mlem_loop c e nm nb i s) = mlem_steps nm nb k s"
proof -
  obtain r s' where eq: "mlem_loop c e nm nb i s = (r, s')"
    by (cases "mlem_loop c e nm nb i s")
  from mlem_loop_char [OF eq] show ?thesis
    unfolding eq by (cases "r < c") auto
qed

lemma mlem_steps_frame:
  "measurements (mlem_steps nm nb k s) = measurements s \<and>
   nns_response (mlem_steps nm nb k s) = nns_response s"
  by (induction k) (simp_all add: mlem_steps_0 mlem_steps_Suc' mlem_body_frame)



lemma mlem_loop_shift:
  "mlem_loop (c + d) e nm nb (i + d) s =
     (fst (mlem_loop c e nm nb i s) + d, snd (mlem_loop c e nm nb i s))"
proof (induction c e nm nb i s rule: mlem_loop.induct)
  case (1 c e nm nb i s)
  let ?s1 = "mlem_body nm nb s"
  show ?case
  proof (cases "i < c \<and> continue_mlem 0 nm e (mlem_ratio ?s1)")
    case True
    then have "mlem_loop (c + d) e nm nb (i + d) s = mlem_loop (c + d) e nm nb (i + d + 1) ?s1"
      by (simp add: mlem_loop.simps [of "c + d" e nm nb "i + d" s] Let_def)
    moreover have "i + d + 1 = i + 1 + d" by simp
    moreover from True have "mlem_loop c e nm nb i s = mlem_loop c e nm nb (i + 1) ?s1"
      by (simp add: mlem_loop.simps [of c e nm nb i s] Let_def)
    ultimately show ?thesis
      using "1.IH" [of ?s1] True by simp
  next
    case False
    then show ?thesis
      by (auto simp: mlem_loop.simps [of "c + d" e nm nb "i + d" s]
          mlem_loop.simps [of c e nm nb i s] Let_def)
  qed
qed

lemma mlem_loop_skip:
  assumes "\<forall>j<a. continue_mlem 0 nm e (mlem_ratio (mlem_steps nm nb (Suc j) s))"
    and "i + int a \<le> c"
  shows "mlem_loop c e nm nb i s = mlem_loop c e nm nb (i + int a) (mlem_steps nm nb a s)"
  using assms
proof (induction a arbitrary: i s)
  case 0
  then show ?case by (simp add: mlem_steps_0)
next
  case (Suc a)
  let ?s1 = "mlem_body nm nb s"
  from Suc.prems(1) have "continue_mlem 0 nm e (mlem_ratio (mlem_steps nm nb (Suc 0) s))"
    by blast
  then have cont: "continue_mlem 0 nm e (mlem_ratio ?s1)"
    by (simp add: mlem_steps_Suc mlem_steps_0)
  from Suc.prems(2) have lt: "i < c" by simp
  from lt cont have "mlem_loop c e nm nb i s = mlem_loop c e nm nb (i + 1) ?s1"
    by (simp add: mlem_loop.simps [of c e nm nb i s] Let_def)
  also have "\<dots> = mlem_loop c e nm nb (i + 1 + int a) (mlem_steps nm nb a ?s1)"
  proof (rule Suc.IH)
    show "\<forall>j<a. continue_mlem 0 nm e (mlem_ratio (mlem_steps nm nb (Suc j) ?s1))"
      using Suc.prems(1) by (auto simp: mlem_steps_Suc [symmetric])
    show "i + 1 + int a \<le> c" using Suc.prems(2) by simp
  qed
  also have "\<dots> = mlem_loop c e nm nb (i + int (Suc a)) (mlem_steps nm nb (Suc a) s)"
    by (simp add: mlem_steps_Suc add.commute add.left_commute)
  finally show ?case .
qed

lemma mlem_steps_length:
  "length (spectrum (mlem_steps nm nb k s)) = length (spectrum s)"
  by (induction k) (simp_all add: mlem_steps_0 mlem_steps_Suc' mlem_body_length)

lemma runMLEM_passes:
  "snd (runMLEM c e nm nb s) = mlem_steps nm nb (nat (min (fst (runMLEM c e nm nb s)) (c - 1))) s \<and>
   (\<forall>j<nat (min (fst (runMLEM c e nm nb s)) (c - 1)).
      runMLEM c e nm nb s = mlem_loop c e nm nb (1 + int j) (mlem_steps nm nb j s))"
proof -
  obtain r s' where eq: "mlem_loop c e nm nb 1 s = (r, s')"
    by (cases "mlem_loop c e nm nb 1 s")
  note ch = mlem_loop_char [OF eq]
  show ?thesis
  proof (cases "r < c")
    case True
    with ch have r1: "1 \<le> r" and s': "s' = mlem_steps nm nb (Suc (nat (r - 1))) s"
      and all: "\<forall>j<nat (r - 1). continue_mlem 0 nm e (mlem_ratio (mlem_steps nm nb (Suc j) s))"
      by blast+
    from r1 have n: "Suc (nat (r - 1)) = nat r" by simp
    from True have mn: "min r (c - 1) = r" by simp
    have "mlem_loop c e nm nb 1 s = mlem_loop c e nm nb (1 + int j) (mlem_steps nm nb j s)"
      if "j < nat r" for j
    proof (rule mlem_loop_skip)
      show "\<forall>i<j. continue_mlem 0 nm e (mlem_ratio (mlem_steps nm nb (Suc i) s))"
        using all that by auto
      show "1 + int j \<le> c" using that True by simp
    qed
    then show ?thesis
      using s' n mn by (simp add: runMLEM_def eq)
  next
    case False
    with ch have r: "r = max 1 c" and s': "s' = mlem_steps nm nb (nat (c - 1)) s"
      and all: "\<forall>j<nat (c - 1). continue_mlem 0 nm e (mlem_ratio (mlem_steps nm nb (Suc j) s))"
      by blast+
    from False have mn: "min r (c - 1) = c - 1" by simp
    have "mlem_loop c e nm nb 1 s = mlem_loop c e nm nb (1 + int j) (mlem_steps nm nb j s)"
      if "j < nat (c - 1)" for j
    proof (rule mlem_loop_skip)
      show "\<forall>i<j. continue_mlem 0 nm e (mlem_ratio (mlem_steps nm nb (Suc i) s))"
        using all that by auto
      show "1 + int j \<le> c" using that by simp
    qed
    then show ?thesis
      using s' mn by (simp add: runMLEM_def eq)
  qed
qed

section \<open>The store and the record agree\<close>

declare for_sum_ub.simps [simp del] for_push_ub.simps [simp del] ratio_loop_h.simps [simp del]
  apply_correction_h.simps [simp del] continue_mlem_h.simps [simp del] mlem_loop_h.simps [simp del]

lemmas mlem_eval_h = for_sum_ub.simps for_push_ub.simps ratio_loop_h.simps apply_correction_h.simps
  continue_mlem_h.simps mlem_loop_h.simps runMLEM_h_def mlem_body_h_def mlem_estimate_h_def
  transpose_response_h_def mlem_correction_h_def mlem_normalization_h_def rd_def Let_def
  zero_double_def one_double_def minus_double_def signed_inf_def

lemma rd_Some: "i < length xs \<Longrightarrow> rd xs i = Some (xs ! i)"
  by (simp add: rd_def)

lemma for_sum_ub_Some:
  "(\<And>k. i \<le> k \<Longrightarrow> k < n \<Longrightarrow> f k = Some (g k)) \<Longrightarrow>
   for_sum_ub f i n t = Some (for_sum g i n t)"
proof (induction f i n t rule: for_sum_ub.induct)
  case (1 f i n t)
  show ?case
  proof (cases "i < n")
    case True
    with "1.prems" have fi: "f i = Some (g i)" by simp
    have "for_sum_ub f (Suc i) n (t + g i) = Some (for_sum g (Suc i) n (t + g i))"
      using True fi "1.prems" by (intro "1.IH") simp_all
    with True fi show ?thesis
      by (simp add: for_sum_ub.simps [of f i] for_sum.simps [of g i])
  next
    case False
    then show ?thesis
      by (simp add: for_sum_ub.simps [of f i] for_sum.simps [of g i])
  qed
qed

lemma for_push_ub_Some:
  "(\<And>k. i \<le> k \<Longrightarrow> k < n \<Longrightarrow> f k = Some (g k)) \<Longrightarrow>
   for_push_ub f i n v = Some (for_push g i n v)"
proof (induction f i n v rule: for_push_ub.induct)
  case (1 f i n v)
  show ?case
  proof (cases "i < n")
    case True
    with "1.prems" have fi: "f i = Some (g i)" by simp
    have "for_push_ub f (Suc i) n (v @ [g i]) = Some (for_push g (Suc i) n (v @ [g i]))"
      using True fi "1.prems" by (intro "1.IH") simp_all
    with True fi show ?thesis
      by (simp add: for_push_ub.simps [of f i] for_push.simps [of g i])
  next
    case False
    then show ?thesis
      by (simp add: for_push_ub.simps [of f i] for_push.simps [of g i])
  qed
qed

lemma mlem_estimate_h_eq:
  assumes "in_range nm nb a h"
  shows "mlem_estimate_h nm nb a h =
    Some (mlem_estimate nm nb (map h (nns_response_at a)) (h (spectrum_at a)))"
  unfolding mlem_estimate_h_def mlem_estimate_def
proof (intro for_push_ub_Some for_sum_ub_Some)
  fix i j assume ij: "i < nm" "j < nb"
  with assms have "i < length (nns_response_at a)" "j < length (h (nns_response_at a ! i))"
    "j < length (h (spectrum_at a))"
    by (auto simp: in_range_def dest: less_le_trans)
  then show "do {
      row \<leftarrow> rd (nns_response_at a) i;
      r \<leftarrow> rd (h row) j;
      x \<leftarrow> rd (h (spectrum_at a)) j;
      Some (r * x) } = Some (map h (nns_response_at a) ! i ! j * h (spectrum_at a) ! j)"
    by (simp add: rd_Some)
qed

lemma transpose_response_h_eq:
  assumes "in_range nm nb a h"
  shows "transpose_response_h nm nb a h =
    Some (transpose_response nm nb (map h (nns_response_at a)))"
  unfolding transpose_response_h_def transpose_response_def
proof (intro for_push_ub_Some)
  fix i j assume ij: "i < nm" "j < nb"
  with assms have "i < length (nns_response_at a)" "j < length (h (nns_response_at a ! i))"
    by (auto simp: in_range_def dest: less_le_trans)
  then show "do {
      row \<leftarrow> rd (nns_response_at a) i;
      rd (h row) j } = Some (map h (nns_response_at a) ! i ! j)"
    by (simp add: rd_Some)
qed

lemma ratio_loop_h_eq:
  assumes "measurements_at a \<noteq> mlem_ratio_at a"
    and "nm \<le> length (h (measurements_at a))" and "nm \<le> length est"
  shows "ratio_loop_h a est i nm h =
    Some (h(mlem_ratio_at a :=
      for_push (\<lambda>k. h (measurements_at a) ! k / est ! k) i nm (h (mlem_ratio_at a))))"
  using assms
proof (induction a est i nm h rule: ratio_loop_h.induct)
  case (1 a est i nm h)
  let ?g = "\<lambda>k. h (measurements_at a) ! k / est ! k"
  show ?case
  proof (cases "i < nm")
    case True
    let ?h' = "h(mlem_ratio_at a := h (mlem_ratio_at a) @ [?g i])"
    from True "1.prems" have r: "rd (h (measurements_at a)) i = Some (h (measurements_at a) ! i)"
      "rd est i = Some (est ! i)"
      by (simp_all add: rd_Some)
    have "ratio_loop_h a est (Suc i) nm ?h' =
      Some (?h'(mlem_ratio_at a :=
        for_push (\<lambda>k. ?h' (measurements_at a) ! k / est ! k) (Suc i) nm (?h' (mlem_ratio_at a))))"
      using True r "1.prems" by (intro "1.IH") simp_all
    with True r "1.prems"(1) show ?thesis
      by (simp add: ratio_loop_h.simps [of a est i] for_push.simps [of ?g i] fun_eq_iff)
  next
    case False
    then show ?thesis
      by (simp add: ratio_loop_h.simps [of a est i] for_push.simps [of ?g i])
  qed
qed

lemma apply_correction_h_eq:
  assumes "nb \<le> length (h (spectrum_at a))" and "nb \<le> length c" and "nb \<le> length m"
  shows "apply_correction_h a c m i nb h =
    Some (h(spectrum_at a := apply_correction i nb c m (h (spectrum_at a))))"
  using assms
proof (induction a c m i nb h rule: apply_correction_h.induct)
  case (1 a c m i nb h)
  show ?case
  proof (cases "i < nb")
    case True
    let ?v = "h (spectrum_at a) ! i * c ! i / m ! i"
    let ?h' = "h(spectrum_at a := (h (spectrum_at a))[i := ?v])"
    from True "1.prems" have r: "rd (h (spectrum_at a)) i = Some (h (spectrum_at a) ! i)"
      "rd c i = Some (c ! i)" "rd m i = Some (m ! i)"
      by (simp_all add: rd_Some)
    have "apply_correction_h a c m (Suc i) nb ?h' =
      Some (?h'(spectrum_at a := apply_correction (Suc i) nb c m (?h' (spectrum_at a))))"
      using True r "1.prems" by (intro "1.IH") simp_all
    with True r show ?thesis
      by (simp add: apply_correction_h.simps [of a c m i]
          apply_correction.simps [of i nb c m "h (spectrum_at a)"] fun_eq_iff)
  next
    case False
    then show ?thesis
      by (simp add: apply_correction_h.simps [of a c m i]
          apply_correction.simps [of i nb c m "h (spectrum_at a)"])
  qed
qed

lemma continue_mlem_h_eq:
  assumes "nm \<le> length (h (mlem_ratio_at a))"
  shows "continue_mlem_h i nm e a h = Some (continue_mlem i nm e (h (mlem_ratio_at a)))"
  using assms
proof (induction i nm e a h rule: continue_mlem_h.induct)
  case (1 i nm e a h)
  show ?case
  proof (cases "i < nm")
    case True
    with "1.prems" have r: "rd (h (mlem_ratio_at a)) i = Some (h (mlem_ratio_at a) ! i)"
      by (simp add: rd_Some)
    show ?thesis
    proof (cases "1 + e \<le> h (mlem_ratio_at a) ! i \<or> h (mlem_ratio_at a) ! i \<le> 1 - e")
      case stop: True
      with True r show ?thesis
        by (simp add: continue_mlem_h.simps [of i nm] continue_mlem.simps [of i nm])
    next
      case False
      with True r "1.IH" "1.prems" show ?thesis
        by (simp add: continue_mlem_h.simps [of i nm] continue_mlem.simps [of i nm])
    qed
  next
    case False
    then show ?thesis
      by (simp add: continue_mlem_h.simps [of i nm] continue_mlem.simps [of i nm])
  qed
qed

lemma mlem_correction_h_eq:
  assumes "nb \<le> length tresp" and "\<forall>i<nb. nm \<le> length (tresp ! i)"
    and "nm \<le> length (h (mlem_ratio_at a))"
  shows "mlem_correction_h nm nb tresp a h =
    Some (mlem_correction nm nb tresp (h (mlem_ratio_at a)))"
  unfolding mlem_correction_h_def mlem_correction_def
proof (intro for_push_ub_Some for_sum_ub_Some)
  fix i j assume ij: "i < nb" "j < nm"
  with assms have "i < length tresp" "j < length (tresp ! i)" "j < length (h (mlem_ratio_at a))"
    by (auto dest: less_le_trans)
  then show "do {
      col \<leftarrow> rd tresp i;
      t \<leftarrow> rd col j;
      r \<leftarrow> rd (h (mlem_ratio_at a)) j;
      Some (t * r) } = Some (tresp ! i ! j * h (mlem_ratio_at a) ! j)"
    by (simp add: rd_Some)
qed

lemma mlem_normalization_h_eq:
  assumes "nb \<le> length tresp" and "\<forall>i<nb. nm \<le> length (tresp ! i)"
  shows "mlem_normalization_h nm nb tresp = Some (mlem_normalization nm nb tresp)"
  unfolding mlem_normalization_h_def mlem_normalization_def
proof (intro for_push_ub_Some for_sum_ub_Some)
  fix i j assume ij: "i < nb" "j < nm"
  with assms have "i < length tresp" "j < length (tresp ! i)"
    by (auto dest: less_le_trans)
  then show "do {
      col \<leftarrow> rd tresp i;
      rd col j } = Some (tresp ! i ! j)"
    by (simp add: rd_Some)
qed

lemma local_lengths:
  "length (mlem_estimate nm nb R spec) = nm"
  "length (transpose_response nm nb R) = nb"
  "i < nb \<Longrightarrow> length (transpose_response nm nb R ! i) = nm"
  "length (mlem_correction nm nb tresp ratio) = nb"
  "length (mlem_normalization nm nb tresp) = nb"
  "length (ratio_loop nm meas est []) = nm"
  by (simp_all add: mlem_estimate_def transpose_response_def mlem_correction_def
      mlem_normalization_def ratio_loop_def for_push_0)

lemma refs_of_sel:
  "measurements (refs_of a h) = h (measurements_at a)"
  "spectrum (refs_of a h) = h (spectrum_at a)"
  "nns_response (refs_of a h) = map h (nns_response_at a)"
  "mlem_ratio (refs_of a h) = h (mlem_ratio_at a)"
  by (simp_all add: refs_of_def)

lemma row_not_written:
  assumes "separate a" and "nm \<le> length (nns_response_at a)" and "i < nm"
  shows "nns_response_at a ! i \<noteq> mlem_ratio_at a" "nns_response_at a ! i \<noteq> spectrum_at a"
proof -
  from assms(2,3) have "nns_response_at a ! i \<in> set (nns_response_at a)" by simp
  with assms(1) show "nns_response_at a ! i \<noteq> mlem_ratio_at a"
    "nns_response_at a ! i \<noteq> spectrum_at a"
    by (auto simp: separate_def)
qed

lemma mlem_body_h_eq:
  assumes sep: "separate a" and rng: "in_range nm nb a h"
  shows "mlem_body_h nm nb a h =
    Some (h(mlem_ratio_at a := mlem_ratio (mlem_body nm nb (refs_of a h)),
            spectrum_at a := spectrum (mlem_body nm nb (refs_of a h))))"
proof -
  let ?h1 = "h(mlem_ratio_at a := [])"
  let ?R = "map h (nns_response_at a)"
  let ?est = "mlem_estimate nm nb ?R (h (spectrum_at a))"
  let ?tr = "transpose_response nm nb ?R"
  let ?ratio = "ratio_loop nm (h (measurements_at a)) ?est []"
  let ?h2 = "h(mlem_ratio_at a := ?ratio)"
  let ?corr = "mlem_correction nm nb ?tr ?ratio"
  let ?norm = "mlem_normalization nm nb ?tr"
  from sep have d: "measurements_at a \<noteq> spectrum_at a" "measurements_at a \<noteq> mlem_ratio_at a"
    "spectrum_at a \<noteq> mlem_ratio_at a" "spectrum_at a \<notin> set (nns_response_at a)"
    "mlem_ratio_at a \<notin> set (nns_response_at a)"
    by (simp_all add: separate_def)
  have rows: "map ?h1 (nns_response_at a) = ?R"
    using d(5) by (intro map_cong) auto
  have rng1: "in_range nm nb a ?h1"
    using rng d row_not_written [OF sep, of nm] by (auto simp: in_range_def)
  have e: "mlem_estimate_h nm nb a ?h1 = Some ?est"
    using mlem_estimate_h_eq [OF rng1] d by (simp add: rows)
  have t: "transpose_response_h nm nb a ?h1 = Some ?tr"
    using transpose_response_h_eq [OF rng1] by (simp add: rows)
  have r: "ratio_loop_h a ?est 0 nm ?h1 = Some ?h2"
    using ratio_loop_h_eq [of a nm ?h1 ?est 0] d rng
    by (simp add: in_range_def local_lengths ratio_loop_def)
  have c: "mlem_correction_h nm nb ?tr a ?h2 = Some ?corr"
    using mlem_correction_h_eq [of nb ?tr nm ?h2 a] by (simp add: local_lengths)
  have n: "mlem_normalization_h nm nb ?tr = Some ?norm"
    using mlem_normalization_h_eq [of nb ?tr nm] by (simp add: local_lengths)
  have u: "apply_correction_h a ?corr ?norm 0 nb ?h2 =
      Some (?h2(spectrum_at a := apply_correction 0 nb ?corr ?norm (h (spectrum_at a))))"
    using apply_correction_h_eq [of nb ?h2 a ?corr ?norm 0] d rng
    by (simp add: in_range_def local_lengths)
  have "mlem_body_h nm nb a h =
      Some (?h2(spectrum_at a := apply_correction 0 nb ?corr ?norm (h (spectrum_at a))))"
    by (simp add: mlem_body_h_def e t r c n u)
  moreover have "mlem_ratio (mlem_body nm nb (refs_of a h)) = ?ratio"
    by (simp add: mlem_body_ratio refs_of_sel)
  moreover have "spectrum (mlem_body nm nb (refs_of a h)) =
      apply_correction 0 nb ?corr ?norm (h (spectrum_at a))"
    by (simp add: mlem_body_spectrum mlem_body_ratio refs_of_sel)
  ultimately show ?thesis by simp
qed

lemma refs_of_update:
  assumes "separate a"
  shows "refs_of a (h(mlem_ratio_at a := r, spectrum_at a := s)) =
    (refs_of a h)\<lparr>spectrum := s, mlem_ratio := r\<rparr>"
proof -
  from assms have d: "measurements_at a \<noteq> spectrum_at a" "measurements_at a \<noteq> mlem_ratio_at a"
    "spectrum_at a \<noteq> mlem_ratio_at a" "spectrum_at a \<notin> set (nns_response_at a)"
    "mlem_ratio_at a \<notin> set (nns_response_at a)"
    by (simp_all add: separate_def)
  have "map (h(mlem_ratio_at a := r, spectrum_at a := s)) (nns_response_at a) =
      map h (nns_response_at a)"
    using d by (intro map_cong) auto
  with d show ?thesis by (simp add: refs_of_def)
qed

lemma mlem_body_as_update:
  "mlem_body nm nb s =
     s\<lparr>spectrum := spectrum (mlem_body nm nb s), mlem_ratio := mlem_ratio (mlem_body nm nb s)\<rparr>"
  by (simp add: mlem_body_def Let_def)

lemma in_range_update:
  assumes "separate a" and "in_range nm nb a h" and "nb \<le> length s"
  shows "in_range nm nb a (h(mlem_ratio_at a := r, spectrum_at a := s))"
  using assms row_not_written [OF assms(1), of nm] by (auto simp: in_range_def separate_def)

lemma mlem_loop_h_eq:
  assumes "separate a" and "in_range nm nb a h"
  shows "mlem_loop_h c e nm nb a i h =
    Some (fst (mlem_loop c e nm nb i (refs_of a h)),
          h(mlem_ratio_at a := mlem_ratio (snd (mlem_loop c e nm nb i (refs_of a h))),
            spectrum_at a := spectrum (snd (mlem_loop c e nm nb i (refs_of a h)))))"
  using assms
proof (induction c e nm nb a i h rule: mlem_loop_h.induct)
  case (1 c e nm nb a i h)
  let ?s = "refs_of a h"
  let ?s1 = "mlem_body nm nb ?s"
  let ?h' = "h(mlem_ratio_at a := mlem_ratio ?s1, spectrum_at a := spectrum ?s1)"
  from "1.prems" have sep: "separate a" and rng: "in_range nm nb a h" by simp_all
  show ?case
  proof (cases "i < c")
    case False
    then show ?thesis
      by (simp add: mlem_loop_h.simps [of c e nm nb a i h] mlem_loop.simps [of c e nm nb i ?s]
          refs_of_sel)
  next
    case True
    have body: "mlem_body_h nm nb a h = Some ?h'"
      by (rule mlem_body_h_eq [OF sep rng])
    have refs: "refs_of a ?h' = ?s1"
      using refs_of_update [OF sep, of h] mlem_body_as_update [of nm nb ?s] by simp
    have len: "nb \<le> length (spectrum ?s1)"
      using rng by (simp add: mlem_body_length in_range_def refs_of_sel)
    have rng': "in_range nm nb a ?h'"
      by (rule in_range_update [OF sep rng len])
    have ratio': "?h' (mlem_ratio_at a) = mlem_ratio ?s1"
      using sep by (simp add: separate_def)
    have len_r: "nm \<le> length (?h' (mlem_ratio_at a))"
      unfolding ratio' by (simp add: mlem_body_length)
    have cont: "continue_mlem_h 0 nm e a ?h' = Some (continue_mlem 0 nm e (mlem_ratio ?s1))"
      using continue_mlem_h_eq [of nm ?h' a 0 e, OF len_r] unfolding ratio' .
    show ?thesis
    proof (cases "continue_mlem 0 nm e (mlem_ratio ?s1)")
      case False
      with True body cont ratio' sep show ?thesis
        by (simp add: mlem_loop_h.simps [of c e nm nb a i h] mlem_loop.simps [of c e nm nb i ?s]
            Let_def separate_def fun_eq_iff)
    next
      case go: True
      have "mlem_loop_h c e nm nb a (i + 1) ?h' =
        Some (fst (mlem_loop c e nm nb (i + 1) (refs_of a ?h')),
          ?h'(mlem_ratio_at a := mlem_ratio (snd (mlem_loop c e nm nb (i + 1) (refs_of a ?h'))),
              spectrum_at a := spectrum (snd (mlem_loop c e nm nb (i + 1) (refs_of a ?h')))))"
        by (rule "1.IH" [OF True body cont go sep rng'])
      with True body cont go sep show ?thesis
        by (simp add: mlem_loop_h.simps [of c e nm nb a i h] mlem_loop.simps [of c e nm nb i ?s]
            Let_def refs separate_def fun_eq_iff)
    qed
  qed
qed

lemma runMLEM_h_out_of_range:
  "runMLEM_h 2 (Fin (1/100)) 1 5
     \<lparr>measurements_at = 0, spectrum_at = 1, nns_response_at = [3], mlem_ratio_at = 2\<rparr>
     (empty_store(0 := [Fin 2], 1 := [Fin 1], 3 := [Fin 1])) = None"
  by (simp add: mlem_eval_h empty_store_def)

section \<open>Values that are not negative\<close>

lemma mlem_body_spectrum_nth:
  assumes "length (spectrum s) = nb" and "b < nb"
  shows "spectrum (mlem_body nm nb s) ! b =
      spectrum s ! b * (\<Sum>m<nm. nns_response s ! m ! b * mlem_ratio (mlem_body nm nb s) ! m) /
        (\<Sum>m<nm. nns_response s ! m ! b)"
  using assms
  by (simp add: mlem_body_spectrum apply_correction_nth mlem_correction_nth mlem_normalization_nth)

lemma not_negative_0: "not_negative 0"
  by (simp add: not_negative_def zero_double_def)

lemma not_negative_add: "not_negative x \<Longrightarrow> not_negative y \<Longrightarrow> not_negative (x + y)"
  by (cases x; cases y) (auto simp: not_negative_def zero_double_def)

lemma not_negative_mult: "not_negative x \<Longrightarrow> not_negative y \<Longrightarrow> not_negative (x * y)"
  by (cases x; cases y) (auto simp: not_negative_def zero_double_def signed_inf_def)

lemma not_negative_divide: "not_negative x \<Longrightarrow> not_negative y \<Longrightarrow> not_negative (x / y)"
  by (cases x; cases y) (auto simp: not_negative_def zero_double_def signed_inf_def)

lemma not_negative_sum:
  "(\<And>i. i < n \<Longrightarrow> not_negative (f i)) \<Longrightarrow> not_negative (\<Sum>i<(n::nat). f i)"
  by (induction n) (simp_all add: not_negative_0 not_negative_add)

lemma mlem_body_not_negative:
  assumes len: "length (spectrum s) = nb"
    and R: "\<And>m b. m < nm \<Longrightarrow> b < nb \<Longrightarrow> not_negative (nns_response s ! m ! b)"
    and M: "\<And>m. m < nm \<Longrightarrow> not_negative (measurements s ! m)"
    and S: "\<And>b. b < nb \<Longrightarrow> not_negative (spectrum s ! b)"
    and b: "b < nb"
  shows "not_negative (spectrum (mlem_body nm nb s) ! b)"
proof -
  let ?est = "mlem_estimate nm nb (nns_response s) (spectrum s)"
  let ?ratio = "mlem_ratio (mlem_body nm nb s)"
  have est: "not_negative (?est ! m)" if "m < nm" for m
    using that by (simp add: mlem_estimate_nth not_negative_sum not_negative_mult R S)
  have ratio: "not_negative (?ratio ! m)" if "m < nm" for m
    using that by (simp add: mlem_body_ratio ratio_loop_nth not_negative_divide M est)
  have corr: "not_negative (\<Sum>m<nm. nns_response s ! m ! b * ?ratio ! m)"
    using b by (intro not_negative_sum not_negative_mult R ratio)
  have norm: "not_negative (\<Sum>m<nm. nns_response s ! m ! b)"
    using b by (intro not_negative_sum R)
  have "spectrum (mlem_body nm nb s) ! b =
      spectrum s ! b * (\<Sum>m<nm. nns_response s ! m ! b * ?ratio ! m) /
        (\<Sum>m<nm. nns_response s ! m ! b)"
    by (rule mlem_body_spectrum_nth [OF len b])
  then show ?thesis
    using corr norm S [OF b] by (simp add: not_negative_divide not_negative_mult)
qed


lemma mlem_steps_not_negative:
  assumes len: "length (spectrum s) = nb"
    and R: "\<And>m b. m < nm \<Longrightarrow> b < nb \<Longrightarrow> not_negative (nns_response s ! m ! b)"
    and M: "\<And>m. m < nm \<Longrightarrow> not_negative (measurements s ! m)"
    and S: "\<And>b. b < nb \<Longrightarrow> not_negative (spectrum s ! b)"
  shows "length (spectrum (mlem_steps nm nb k s)) = nb \<and>
    (\<forall>b<nb. not_negative (spectrum (mlem_steps nm nb k s) ! b))"
proof (induction k)
  case 0
  show ?case using len S by (simp add: mlem_steps_0)
next
  case (Suc k)
  let ?t = "mlem_steps nm nb k s"
  have fr: "measurements ?t = measurements s" "nns_response ?t = nns_response s"
    using mlem_steps_frame [of nm nb k s] by simp_all
  have "not_negative (spectrum (mlem_body nm nb ?t) ! b)" if "b < nb" for b
    using Suc that by (intro mlem_body_not_negative) (simp_all add: fr R M)
  then show ?case
    using Suc by (simp add: mlem_steps_Suc' mlem_body_length)
qed

section \<open>The RMS difference in closed form\<close>

lemma poisson_rms_nth:
  assumes "i < 52"
  shows "poisson_rms n poissmat spec sq ! i ! 0 =
     dsqrt ((sq ! i ! 0 + (\<Sum>k<n. (poissmat ! i ! k - spec ! i) * (poissmat ! i ! k - spec ! i)))
            / double_of_int (int n))"
  using assms
  by (simp add: poisson_rms_def rms_difference_def sq_average_def sq_sum_def for_push_0
      for_push.simps [of _ 0 1] for_push.simps [of _ "Suc 0" 1] for_sum_eq atLeast0LessThan)

lemma poisson_rms_zeroed:
  assumes "i < 52" and "sq ! i ! 0 = 0"
  shows "poisson_rms n poissmat spec sq ! i ! 0 =
     dsqrt ((\<Sum>k<n. (poissmat ! i ! k - spec ! i) * (poissmat ! i ! k - spec ! i))
            / double_of_int (int n))"
  using assms by (simp add: poisson_rms_nth)

section \<open>The claims\<close>

subsection \<open>The iterations of runMLEM\<close>

text \<open>
  C1. A call of \<open>runMLEM\<close> on a spectrum of \<open>num_bins\<close> entries returns the state
  after \<open>n\<close> iterations, \<open>n\<close> being the smaller of the returned index and
  \<open>cutoff - 1\<close>. For every \<open>j < n\<close> the run reaches the loop index \<open>j + 1\<close>
  in the state after \<open>j\<close> iterations, and iteration \<open>j + 1\<close> computes from that
  state, for every measurement \<open>m\<close> and bin \<open>b\<close>: the estimate of \<open>m\<close> as
  the sum over the bins of response times spectrum; the ratio of \<open>m\<close> as the
  measurement divided by the estimate; the correction of \<open>b\<close> as the sum over the
  measurements of response times ratio; the normalization of \<open>b\<close> as the column sum
  of the response; and the new spectrum of \<open>b\<close> as the old one times the correction
  divided by the normalization.
\<close>

theorem runMLEM_iteration_formulas:
  assumes "length (spectrum s) = num_bins" and "m < num_measurements" and "b < num_bins"
    and "j < nat (min (fst (runMLEM cutoff error num_measurements num_bins s)) (cutoff - 1))"
  shows
    "snd (runMLEM cutoff error num_measurements num_bins s) =
       mlem_steps num_measurements num_bins
         (nat (min (fst (runMLEM cutoff error num_measurements num_bins s)) (cutoff - 1))) s \<and>
     runMLEM cutoff error num_measurements num_bins s =
       mlem_loop cutoff error num_measurements num_bins (1 + int j)
         (mlem_steps num_measurements num_bins j s) \<and>
     mlem_estimate num_measurements num_bins (nns_response s)
         (spectrum (mlem_steps num_measurements num_bins j s)) ! m =
       (\<Sum>i_bin<num_bins. nns_response s ! m ! i_bin *
          spectrum (mlem_steps num_measurements num_bins j s) ! i_bin) \<and>
     mlem_ratio (mlem_steps num_measurements num_bins (Suc j) s) ! m =
       measurements s ! m /
       mlem_estimate num_measurements num_bins (nns_response s)
         (spectrum (mlem_steps num_measurements num_bins j s)) ! m \<and>
     mlem_correction num_measurements num_bins
         (transpose_response num_measurements num_bins (nns_response s))
         (mlem_ratio (mlem_steps num_measurements num_bins (Suc j) s)) ! b =
       (\<Sum>i_meas<num_measurements. nns_response s ! i_meas ! b *
          mlem_ratio (mlem_steps num_measurements num_bins (Suc j) s) ! i_meas) \<and>
     mlem_normalization num_measurements num_bins
         (transpose_response num_measurements num_bins (nns_response s)) ! b =
       (\<Sum>i_meas<num_measurements. nns_response s ! i_meas ! b) \<and>
     spectrum (mlem_steps num_measurements num_bins (Suc j) s) ! b =
       spectrum (mlem_steps num_measurements num_bins j s) ! b *
       mlem_correction num_measurements num_bins
         (transpose_response num_measurements num_bins (nns_response s))
         (mlem_ratio (mlem_steps num_measurements num_bins (Suc j) s)) ! b /
       mlem_normalization num_measurements num_bins
         (transpose_response num_measurements num_bins (nns_response s)) ! b"
proof -
  let ?t = "mlem_steps num_measurements num_bins j s"
  have fr: "measurements ?t = measurements s" "nns_response ?t = nns_response s"
    using mlem_steps_frame [of num_measurements num_bins j s] by simp_all
  have len: "length (spectrum ?t) = num_bins"
    using assms(1) by (simp add: mlem_steps_length)
  have link: "snd (runMLEM cutoff error num_measurements num_bins s) =
       mlem_steps num_measurements num_bins
         (nat (min (fst (runMLEM cutoff error num_measurements num_bins s)) (cutoff - 1))) s"
    "runMLEM cutoff error num_measurements num_bins s =
       mlem_loop cutoff error num_measurements num_bins (1 + int j) ?t"
    using runMLEM_passes [of cutoff error num_measurements num_bins s] assms(4) by blast+
  have est: "mlem_estimate num_measurements num_bins (nns_response s) (spectrum ?t) ! m =
       (\<Sum>i_bin<num_bins. nns_response s ! m ! i_bin * spectrum ?t ! i_bin)"
    using assms(2) by (rule mlem_estimate_nth)
  have ratio: "mlem_ratio (mlem_steps num_measurements num_bins (Suc j) s) ! m =
       measurements s ! m /
       mlem_estimate num_measurements num_bins (nns_response s) (spectrum ?t) ! m"
    using assms(2) by (simp add: mlem_steps_Suc' mlem_body_ratio ratio_loop_nth fr)
  have corr: "mlem_correction num_measurements num_bins
         (transpose_response num_measurements num_bins (nns_response s))
         (mlem_ratio (mlem_steps num_measurements num_bins (Suc j) s)) ! b =
       (\<Sum>i_meas<num_measurements. nns_response s ! i_meas ! b *
          mlem_ratio (mlem_steps num_measurements num_bins (Suc j) s) ! i_meas)"
    using assms(3) by (rule mlem_correction_nth)
  have norm: "mlem_normalization num_measurements num_bins
         (transpose_response num_measurements num_bins (nns_response s)) ! b =
       (\<Sum>i_meas<num_measurements. nns_response s ! i_meas ! b)"
    using assms(3) by (rule mlem_normalization_nth)
  have upd: "spectrum (mlem_steps num_measurements num_bins (Suc j) s) ! b =
       spectrum ?t ! b *
       mlem_correction num_measurements num_bins
         (transpose_response num_measurements num_bins (nns_response s))
         (mlem_ratio (mlem_steps num_measurements num_bins (Suc j) s)) ! b /
       mlem_normalization num_measurements num_bins
         (transpose_response num_measurements num_bins (nns_response s)) ! b"
    using assms(3) len
    by (simp add: mlem_steps_Suc' mlem_body_spectrum apply_correction_nth fr)
  from link est ratio corr norm upd show ?thesis by blast
qed

theorem runMLEM_iteration_formulas_witness:
  "fst (runMLEM 100 (Fin (1/100)) 2 2
       \<lparr>measurements = [Fin 2, Fin 3], spectrum = [Fin 1, Fin 1], nns_response = [[Fin 1, Fin 0], [Fin 0, Fin 1]], mlem_ratio = []\<rparr>) = 2 \<and>
   snd (runMLEM 100 (Fin (1/100)) 2 2
       \<lparr>measurements = [Fin 2, Fin 3], spectrum = [Fin 1, Fin 1], nns_response = [[Fin 1, Fin 0], [Fin 0, Fin 1]], mlem_ratio = []\<rparr>) =
     mlem_steps 2 2 2
       \<lparr>measurements = [Fin 2, Fin 3], spectrum = [Fin 1, Fin 1], nns_response = [[Fin 1, Fin 0], [Fin 0, Fin 1]], mlem_ratio = []\<rparr> \<and>
   spectrum (mlem_steps 2 2 1
       \<lparr>measurements = [Fin 2, Fin 3], spectrum = [Fin 1, Fin 1], nns_response = [[Fin 1, Fin 0], [Fin 0, Fin 1]], mlem_ratio = []\<rparr>) = [Fin 2, Fin 3] \<and>
   mlem_ratio (mlem_steps 2 2 (Suc 1)
       \<lparr>measurements = [Fin 2, Fin 3], spectrum = [Fin 1, Fin 1], nns_response = [[Fin 1, Fin 0], [Fin 0, Fin 1]], mlem_ratio = []\<rparr>) ! 0 =
     Fin 2 / mlem_estimate 2 2 [[Fin 1, Fin 0], [Fin 0, Fin 1]] [Fin 2, Fin 3] ! 0 \<and>
   spectrum (mlem_steps 2 2 (Suc 1)
       \<lparr>measurements = [Fin 2, Fin 3], spectrum = [Fin 1, Fin 1], nns_response = [[Fin 1, Fin 0], [Fin 0, Fin 1]], mlem_ratio = []\<rparr>) ! 0 =
     Fin 2 *
     mlem_correction 2 2 (transpose_response 2 2 [[Fin 1, Fin 0], [Fin 0, Fin 1]])
       (mlem_ratio (mlem_steps 2 2 (Suc 1)
       \<lparr>measurements = [Fin 2, Fin 3], spectrum = [Fin 1, Fin 1], nns_response = [[Fin 1, Fin 0], [Fin 0, Fin 1]], mlem_ratio = []\<rparr>)) ! 0 /
     mlem_normalization 2 2 (transpose_response 2 2 [[Fin 1, Fin 0], [Fin 0, Fin 1]]) ! 0"
proof -
  have v: "fst (runMLEM 100 (Fin (1/100)) 2 2
       \<lparr>measurements = [Fin 2, Fin 3], spectrum = [Fin 1, Fin 1], nns_response = [[Fin 1, Fin 0], [Fin 0, Fin 1]], mlem_ratio = []\<rparr>) = 2"
    by (simp add: mlem_eval)
  have s1: "spectrum (mlem_steps 2 2 1
       \<lparr>measurements = [Fin 2, Fin 3], spectrum = [Fin 1, Fin 1], nns_response = [[Fin 1, Fin 0], [Fin 0, Fin 1]], mlem_ratio = []\<rparr>) = [Fin 2, Fin 3]"
    by (simp add: mlem_steps_def mlem_eval)
  have j: "1 < nat (min (fst (runMLEM 100 (Fin (1/100)) 2 2
       \<lparr>measurements = [Fin 2, Fin 3], spectrum = [Fin 1, Fin 1], nns_response = [[Fin 1, Fin 0], [Fin 0, Fin 1]], mlem_ratio = []\<rparr>)) (100 - 1))"
    using v by simp
  note t = runMLEM_iteration_formulas [of
      "\<lparr>measurements = [Fin 2, Fin 3], spectrum = [Fin 1, Fin 1], nns_response = [[Fin 1, Fin 0], [Fin 0, Fin 1]], mlem_ratio = []\<rparr>" 2 0 2 0 1 100 "Fin (1/100)", OF _ _ _ j, simplified]
  have a: "snd (runMLEM 100 (Fin (1/100)) 2 2
       \<lparr>measurements = [Fin 2, Fin 3], spectrum = [Fin 1, Fin 1], nns_response = [[Fin 1, Fin 0], [Fin 0, Fin 1]], mlem_ratio = []\<rparr>) =
     mlem_steps 2 2 2
       \<lparr>measurements = [Fin 2, Fin 3], spectrum = [Fin 1, Fin 1], nns_response = [[Fin 1, Fin 0], [Fin 0, Fin 1]], mlem_ratio = []\<rparr>"
    using t [THEN conjunct1] v by simp
  show ?thesis
    using a v s1 t [THEN conjunct2, THEN conjunct2] by simp
qed

subsection \<open>The sign of the spectrum\<close>

text \<open>
  C2, as amended. For a response matrix, a measurements vector and an initial spectrum
  whose entries are all \<open>>= 0\<close>, no entry of the spectrum is ever negative, after a
  call of \<open>runMLEM\<close> with any cap and after any number \<open>k\<close> of iterations: every
  entry is \<open>>= 0\<close> (possibly \<open>+Inf\<close>) or NaN. The column sums are not needed for
  this.
\<close>

theorem runMLEM_not_negative:
  assumes "length (spectrum s) = num_bins"
    and "\<forall>m<num_measurements. \<forall>b<num_bins. 0 \<le> nns_response s ! m ! b"
    and "\<forall>m<num_measurements. 0 \<le> measurements s ! m"
    and "\<forall>b<num_bins. 0 \<le> spectrum s ! b"
    and "b < num_bins"
  shows "(0 \<le> spectrum (snd (runMLEM cutoff error num_measurements num_bins s)) ! b \<or>
          spectrum (snd (runMLEM cutoff error num_measurements num_bins s)) ! b = NaN) \<and>
         (0 \<le> spectrum (mlem_steps num_measurements num_bins k s) ! b \<or>
          spectrum (mlem_steps num_measurements num_bins k s) ! b = NaN)"
proof -
  have inv: "not_negative (spectrum (mlem_steps num_measurements num_bins j s) ! b)" for j
    using mlem_steps_not_negative [of s num_bins num_measurements j] assms
    by (simp add: not_negative_def)
  obtain j where "snd (runMLEM cutoff error num_measurements num_bins s)
      = mlem_steps num_measurements num_bins j s"
    unfolding runMLEM_def using mlem_loop_steps by blast
  with inv [of j] inv [of k] show ?thesis
    by (simp add: not_negative_def)
qed

text \<open>
  C2 as stated fails: the response (the identity, column sums 1), the measurements
  \<open>[0,1]\<close> and the initial spectrum \<open>[1,1]\<close> are non-negative. The first iteration
  makes the spectrum \<open>[0,1]\<close>; in the second the first estimate is zero, its ratio
  \<open>0/0\<close> is NaN, and both entries of the spectrum become NaN, which is not \<open>>= 0\<close>.
\<close>

theorem runMLEM_not_negative_counterexample:
  "mlem_normalization 2 2 (transpose_response 2 2 [[Fin 1, Fin 0], [Fin 0, Fin 1]]) = [Fin 1, Fin 1] \<and>
   spectrum (mlem_steps 2 2 1 \<lparr>measurements = [Fin 0, Fin 1], spectrum = [Fin 1, Fin 1], nns_response = [[Fin 1, Fin 0], [Fin 0, Fin 1]], mlem_ratio = []\<rparr>) = [Fin 0, Fin 1] \<and>
   spectrum (snd (runMLEM 3 (Fin (1/100)) 2 2 \<lparr>measurements = [Fin 0, Fin 1], spectrum = [Fin 1, Fin 1], nns_response = [[Fin 1, Fin 0], [Fin 0, Fin 1]], mlem_ratio = []\<rparr>)) = [NaN, NaN] \<and>
   \<not> 0 \<le> spectrum (snd (runMLEM 3 (Fin (1/100)) 2 2 \<lparr>measurements = [Fin 0, Fin 1], spectrum = [Fin 1, Fin 1], nns_response = [[Fin 1, Fin 0], [Fin 0, Fin 1]], mlem_ratio = []\<rparr>)) ! 0"
proof -
  have n: "mlem_normalization 2 2 (transpose_response 2 2 [[Fin 1, Fin 0], [Fin 0, Fin 1]]) = [Fin 1, Fin 1]"
    by (simp add: mlem_eval)
  have s1: "spectrum (mlem_steps 2 2 1 \<lparr>measurements = [Fin 0, Fin 1], spectrum = [Fin 1, Fin 1], nns_response = [[Fin 1, Fin 0], [Fin 0, Fin 1]], mlem_ratio = []\<rparr>) = [Fin 0, Fin 1]"
    by (simp add: mlem_steps_def mlem_eval)
  have r: "spectrum (snd (runMLEM 3 (Fin (1/100)) 2 2 \<lparr>measurements = [Fin 0, Fin 1], spectrum = [Fin 1, Fin 1], nns_response = [[Fin 1, Fin 0], [Fin 0, Fin 1]], mlem_ratio = []\<rparr>)) = [NaN, NaN]"
    by (simp add: mlem_eval)
  show ?thesis
    using n s1 r by (simp add: zero_double_def)
qed

theorem runMLEM_not_negative_witness:
  "0 \<le> spectrum (snd (runMLEM 100 (Fin (1/100)) 2 2 \<lparr>measurements = [Fin 2, Fin 3], spectrum = [Fin 1, Fin 1], nns_response = [[Fin 1, Fin 0], [Fin 0, Fin 1]], mlem_ratio = []\<rparr>)) ! 0"
proof -
  have v: "spectrum (snd (runMLEM 100 (Fin (1/100)) 2 2 \<lparr>measurements = [Fin 2, Fin 3], spectrum = [Fin 1, Fin 1], nns_response = [[Fin 1, Fin 0], [Fin 0, Fin 1]], mlem_ratio = []\<rparr>)) = [Fin 2, Fin 3]"
    by (simp add: mlem_eval)
  have "\<forall>m<2. \<forall>b<2. (0::double) \<le> [[Fin 1, Fin 0], [Fin 0, Fin 1]] ! m ! b"
    by (simp add: less_2_cases_iff zero_double_def all_conj_distrib)
  moreover have "\<forall>m<2. (0::double) \<le> [Fin 2, Fin 3] ! m"
    by (simp add: less_2_cases_iff zero_double_def)
  moreover have "\<forall>b<2. (0::double) \<le> [Fin 1, Fin 1] ! b"
    by (simp add: less_2_cases_iff zero_double_def)
  ultimately show ?thesis
    using runMLEM_not_negative [of "\<lparr>measurements = [Fin 2, Fin 3], spectrum = [Fin 1, Fin 1], nns_response = [[Fin 1, Fin 0], [Fin 0, Fin 1]], mlem_ratio = []\<rparr>" 2 2 0 100 "Fin (1/100)" 0] v
    by simp
qed

subsection \<open>The convergence test\<close>

text \<open>
  C3, as amended. \<open>runMLEM\<close> returns before its index reaches \<open>cutoff\<close> exactly when
  there is an iteration \<open>k\<close> with \<open>1 \<le> k < cutoff\<close> at which every ratio, for all
  measurements at once, passes the test of the code: it is neither \<open>>= 1+error\<close> nor
  \<open><= 1-error\<close>. For a ratio that is a number this is the open interval
  \<open>(1-error, 1+error)\<close>; a NaN passes too, every comparison with it being false.
  One ratio on a bound or outside keeps the loop going.
\<close>

theorem runMLEM_early_stop:
  "fst (runMLEM cutoff error num_measurements num_bins s) < cutoff \<longleftrightarrow>
     (\<exists>k. 1 \<le> k \<and> int k < cutoff \<and>
        (\<forall>m<num_measurements.
           \<not> 1 + error \<le> mlem_ratio (mlem_steps num_measurements num_bins k s) ! m \<and>
           \<not> mlem_ratio (mlem_steps num_measurements num_bins k s) ! m \<le> 1 - error))"
  (is "?L \<longleftrightarrow> ?R")
proof -
  obtain r s' where eq: "mlem_loop cutoff error num_measurements num_bins 1 s = (r, s')"
    by (cases "mlem_loop cutoff error num_measurements num_bins 1 s")
  note ch = mlem_loop_char [OF eq]
  have conv: "\<And>k. (\<forall>m<num_measurements.
           \<not> 1 + error \<le> mlem_ratio (mlem_steps num_measurements num_bins k s) ! m \<and>
           \<not> mlem_ratio (mlem_steps num_measurements num_bins k s) ! m \<le> 1 - error)
       \<longleftrightarrow> \<not> continue_mlem 0 num_measurements error
              (mlem_ratio (mlem_steps num_measurements num_bins k s))"
    by (auto simp: continue_mlem_iff)
  show ?thesis
  proof
    assume ?L
    then have rc: "r < cutoff" by (simp add: runMLEM_def eq)
    with ch have "1 \<le> r" and s': "s' = mlem_steps num_measurements num_bins (Suc (nat (r - 1))) s"
      and nc: "\<not> continue_mlem 0 num_measurements error (mlem_ratio s')"
      by blast+
    from \<open>1 \<le> r\<close> have "Suc (nat (r - 1)) = nat r" by simp
    with s' nc have "\<not> continue_mlem 0 num_measurements error
        (mlem_ratio (mlem_steps num_measurements num_bins (nat r) s))" by simp
    moreover have "1 \<le> nat r" "int (nat r) < cutoff" using \<open>1 \<le> r\<close> rc by simp_all
    ultimately show ?R unfolding conv by blast
  next
    assume ?R
    then obtain k where k: "1 \<le> k" "int k < cutoff"
      and nc: "\<not> continue_mlem 0 num_measurements error
          (mlem_ratio (mlem_steps num_measurements num_bins k s))"
      unfolding conv by blast
    show ?L
    proof (rule ccontr)
      assume "\<not> ?L"
      then have "\<not> r < cutoff" by (simp add: runMLEM_def eq)
      with ch have all: "\<forall>j<nat (cutoff - 1). continue_mlem 0 num_measurements error
          (mlem_ratio (mlem_steps num_measurements num_bins (Suc j) s))" by blast
      from k have "k - 1 < nat (cutoff - 1)" "Suc (k - 1) = k" by simp_all
      with all have "continue_mlem 0 num_measurements error
          (mlem_ratio (mlem_steps num_measurements num_bins k s))" by metis
      with nc show False by simp
    qed
  qed
qed

text \<open>
  C3 as stated fails on the bound: with \<open>error = 1/2\<close> the only ratio of the first
  iteration is \<open>3/2\<close>, inside the closed interval \<open>[1/2, 3/2]\<close>, and the loop of
  \<open>cutoff = 2\<close> still runs to its end.
\<close>

theorem runMLEM_early_stop_counterexample:
  "1 - Fin (1/2) \<le> mlem_ratio (mlem_body 1 1 \<lparr>measurements = [Fin (3/2)], spectrum = [Fin 1], nns_response = [[Fin 1]], mlem_ratio = []\<rparr>) ! 0 \<and>
   mlem_ratio (mlem_body 1 1 \<lparr>measurements = [Fin (3/2)], spectrum = [Fin 1], nns_response = [[Fin 1]], mlem_ratio = []\<rparr>) ! 0 \<le> 1 + Fin (1/2) \<and>
   \<not> fst (runMLEM 2 (Fin (1/2)) 1 1 \<lparr>measurements = [Fin (3/2)], spectrum = [Fin 1], nns_response = [[Fin 1]], mlem_ratio = []\<rparr>) < 2"
  by (simp add: mlem_eval)

theorem runMLEM_early_stop_witness:
  "\<exists>k. 1 \<le> k \<and> int k < 100 \<and>
     (\<forall>m<2. \<not> 1 + Fin (1/100) \<le> mlem_ratio (mlem_steps 2 2 k \<lparr>measurements = [Fin 2, Fin 3], spectrum = [Fin 1, Fin 1], nns_response = [[Fin 1, Fin 0], [Fin 0, Fin 1]], mlem_ratio = []\<rparr>) ! m \<and>
            \<not> mlem_ratio (mlem_steps 2 2 k \<lparr>measurements = [Fin 2, Fin 3], spectrum = [Fin 1, Fin 1], nns_response = [[Fin 1, Fin 0], [Fin 0, Fin 1]], mlem_ratio = []\<rparr>) ! m \<le> 1 - Fin (1/100))"
proof -
  have "fst (runMLEM 100 (Fin (1/100)) 2 2 \<lparr>measurements = [Fin 2, Fin 3], spectrum = [Fin 1, Fin 1], nns_response = [[Fin 1, Fin 0], [Fin 0, Fin 1]], mlem_ratio = []\<rparr>) < 100"
    by (simp add: mlem_eval)
  then show ?thesis
    using runMLEM_early_stop [of 100 "Fin (1/100)" 2 2 "\<lparr>measurements = [Fin 2, Fin 3], spectrum = [Fin 1, Fin 1], nns_response = [[Fin 1, Fin 0], [Fin 0, Fin 1]], mlem_ratio = []\<rparr>"]
    by blast
qed

subsection \<open>The iteration cap and the returned index\<close>




subsection \<open>The scenario of the identity response\<close>

text \<open>
  C5. On response \<open>[[1,0],[0,1]]\<close>, measurements \<open>[2,3]\<close>, initial spectrum
  \<open>[1,1]\<close>, tolerance \<open>0.01\<close> and a cap of 100: the estimate of the first iteration is
  \<open>[1,1]\<close> and its ratio \<open>[2,3]\<close>, the spectrum becomes \<open>[2,3]\<close>, the ratio of the
  second iteration is \<open>[1,1]\<close>, which passes the test, and \<open>runMLEM\<close> returns 2 with
  the spectrum \<open>[2,3]\<close>.
\<close>

theorem runMLEM_scenario:
  "mlem_estimate 2 2 [[Fin 1, Fin 0], [Fin 0, Fin 1]] [Fin 1, Fin 1] = [Fin 1, Fin 1] \<and>
   mlem_ratio (mlem_steps 2 2 1 \<lparr>measurements = [Fin 2, Fin 3], spectrum = [Fin 1, Fin 1], nns_response = [[Fin 1, Fin 0], [Fin 0, Fin 1]], mlem_ratio = []\<rparr>) = [Fin 2, Fin 3] \<and>
   spectrum (mlem_steps 2 2 1 \<lparr>measurements = [Fin 2, Fin 3], spectrum = [Fin 1, Fin 1], nns_response = [[Fin 1, Fin 0], [Fin 0, Fin 1]], mlem_ratio = []\<rparr>) = [Fin 2, Fin 3] \<and>
   mlem_ratio (mlem_steps 2 2 2 \<lparr>measurements = [Fin 2, Fin 3], spectrum = [Fin 1, Fin 1], nns_response = [[Fin 1, Fin 0], [Fin 0, Fin 1]], mlem_ratio = []\<rparr>) = [Fin 1, Fin 1] \<and>
   \<not> continue_mlem 0 2 (Fin (1/100)) [Fin 1, Fin 1] \<and>
   runMLEM 100 (Fin (1/100)) 2 2 \<lparr>measurements = [Fin 2, Fin 3], spectrum = [Fin 1, Fin 1], nns_response = [[Fin 1, Fin 0], [Fin 0, Fin 1]], mlem_ratio = []\<rparr> =
     (2, \<lparr>measurements = [Fin 2, Fin 3], spectrum = [Fin 2, Fin 3],
         nns_response = [[Fin 1, Fin 0], [Fin 0, Fin 1]], mlem_ratio = [Fin 1, Fin 1]\<rparr>)"
proof -
  have e: "mlem_estimate 2 2 [[Fin 1, Fin 0], [Fin 0, Fin 1]] [Fin 1, Fin 1] = [Fin 1, Fin 1]"
    by (simp add: mlem_eval)
  have s1: "mlem_steps 2 2 1 \<lparr>measurements = [Fin 2, Fin 3], spectrum = [Fin 1, Fin 1], nns_response = [[Fin 1, Fin 0], [Fin 0, Fin 1]], mlem_ratio = []\<rparr> =
      \<lparr>measurements = [Fin 2, Fin 3], spectrum = [Fin 2, Fin 3],
       nns_response = [[Fin 1, Fin 0], [Fin 0, Fin 1]], mlem_ratio = [Fin 2, Fin 3]\<rparr>"
    by (simp add: mlem_steps_def mlem_eval)
  have s2: "mlem_steps 2 2 2 \<lparr>measurements = [Fin 2, Fin 3], spectrum = [Fin 1, Fin 1], nns_response = [[Fin 1, Fin 0], [Fin 0, Fin 1]], mlem_ratio = []\<rparr> =
      \<lparr>measurements = [Fin 2, Fin 3], spectrum = [Fin 2, Fin 3],
       nns_response = [[Fin 1, Fin 0], [Fin 0, Fin 1]], mlem_ratio = [Fin 1, Fin 1]\<rparr>"
    by (simp add: mlem_steps_def numeral_2_eq_2 mlem_eval)
  have c: "\<not> continue_mlem 0 2 (Fin (1/100)) [Fin 1, Fin 1]"
    by (simp add: mlem_eval)
  have r: "runMLEM 100 (Fin (1/100)) 2 2 \<lparr>measurements = [Fin 2, Fin 3], spectrum = [Fin 1, Fin 1], nns_response = [[Fin 1, Fin 0], [Fin 0, Fin 1]], mlem_ratio = []\<rparr> =
     (2, \<lparr>measurements = [Fin 2, Fin 3], spectrum = [Fin 2, Fin 3],
         nns_response = [[Fin 1, Fin 0], [Fin 0, Fin 1]], mlem_ratio = [Fin 1, Fin 1]\<rparr>)"
    by (simp add: mlem_eval)
  show ?thesis
    using e s1 s2 c r by simp
qed

subsection \<open>An estimate of zero\<close>




subsection \<open>Resuming a run\<close>

text \<open>
  C7. A call with cap \<open>n + 1\<close> runs at most \<open>n\<close> iterations. If the run of \<open>a\<close>
  iterations is not stopped early by the tolerance (it returns its cap), then running
  \<open>b\<close> more iterations from the state it leaves gives the same spectrum and ratio
  vector as one run of \<open>a + b\<close> iterations from the initial state, and the single
  run returns \<open>a\<close> more than the second run does. In the exact arithmetic of the
  model the two states are equal.
\<close>

theorem runMLEM_resume:
  assumes "fst (runMLEM (int a + 1) error num_measurements num_bins s) = int a + 1"
  shows "snd (runMLEM (int b + 1) error num_measurements num_bins
              (snd (runMLEM (int a + 1) error num_measurements num_bins s))) =
         snd (runMLEM (int (a + b) + 1) error num_measurements num_bins s) \<and>
         fst (runMLEM (int (a + b) + 1) error num_measurements num_bins s) =
         int a + fst (runMLEM (int b + 1) error num_measurements num_bins
              (snd (runMLEM (int a + 1) error num_measurements num_bins s)))"
proof -
  obtain r s1 where eq: "mlem_loop (int a + 1) error num_measurements num_bins 1 s = (r, s1)"
    by (cases "mlem_loop (int a + 1) error num_measurements num_bins 1 s")
  with assms have r: "r = int a + 1" by (simp add: runMLEM_def)
  with mlem_loop_char [OF eq]
  have s1: "s1 = mlem_steps num_measurements num_bins a s"
    and all: "\<forall>j<a. continue_mlem 0 num_measurements error
        (mlem_ratio (mlem_steps num_measurements num_bins (Suc j) s))"
    by simp_all
  have "mlem_loop (int (a + b) + 1) error num_measurements num_bins 1 s =
      mlem_loop (int (a + b) + 1) error num_measurements num_bins (1 + int a) s1"
    unfolding s1 by (rule mlem_loop_skip [OF all]) simp
  also have "\<dots> = mlem_loop (int b + 1 + int a) error num_measurements num_bins (1 + int a) s1"
    by (simp add: add.commute add.left_commute)
  also have "\<dots> = (fst (mlem_loop (int b + 1) error num_measurements num_bins 1 s1) + int a,
      snd (mlem_loop (int b + 1) error num_measurements num_bins 1 s1))"
    by (rule mlem_loop_shift)
  finally show ?thesis
    by (simp add: runMLEM_def eq)
qed

theorem runMLEM_resume_witness:
  "fst (runMLEM (int 1 + 1) (Fin (1/100)) 2 1 \<lparr>measurements = [Fin 1, Fin 3], spectrum = [Fin 1], nns_response = [[Fin 1], [Fin 1]], mlem_ratio = []\<rparr>) = int 1 + 1 \<and>
   snd (runMLEM (int 1 + 1) (Fin (1/100)) 2 1
          (snd (runMLEM (int 1 + 1) (Fin (1/100)) 2 1 \<lparr>measurements = [Fin 1, Fin 3], spectrum = [Fin 1], nns_response = [[Fin 1], [Fin 1]], mlem_ratio = []\<rparr>))) =
   snd (runMLEM (int (1 + 1) + 1) (Fin (1/100)) 2 1 \<lparr>measurements = [Fin 1, Fin 3], spectrum = [Fin 1], nns_response = [[Fin 1], [Fin 1]], mlem_ratio = []\<rparr>) \<and>
   spectrum (snd (runMLEM (int (1 + 1) + 1) (Fin (1/100)) 2 1 \<lparr>measurements = [Fin 1, Fin 3], spectrum = [Fin 1], nns_response = [[Fin 1], [Fin 1]], mlem_ratio = []\<rparr>)) = [Fin 2] \<and>
   fst (runMLEM (int (1 + 1) + 1) (Fin (1/100)) 2 1 \<lparr>measurements = [Fin 1, Fin 3], spectrum = [Fin 1], nns_response = [[Fin 1], [Fin 1]], mlem_ratio = []\<rparr>) = 3"
proof -
  have h: "fst (runMLEM (int 1 + 1) (Fin (1/100)) 2 1 \<lparr>measurements = [Fin 1, Fin 3], spectrum = [Fin 1], nns_response = [[Fin 1], [Fin 1]], mlem_ratio = []\<rparr>) = int 1 + 1"
    by (simp add: mlem_eval)
  have v: "runMLEM (int (1 + 1) + 1) (Fin (1/100)) 2 1 \<lparr>measurements = [Fin 1, Fin 3], spectrum = [Fin 1], nns_response = [[Fin 1], [Fin 1]], mlem_ratio = []\<rparr> =
      (3, \<lparr>measurements = [Fin 1, Fin 3], spectrum = [Fin 2], nns_response = [[Fin 1], [Fin 1]],
           mlem_ratio = [Fin (1/2), Fin (3/2)]\<rparr>)"
    by (simp add: mlem_eval)
  from runMLEM_resume [OF h, of 1] h v show ?thesis by simp
qed

subsection \<open>The uncertainty of the spectrum\<close>

text \<open>
  C8, on the code. With one Poisson sample equal to the reference spectrum in every bin
  the claim gives an uncertainty of exactly 0. The value the code computes depends on
  what the array \<open>sq\<close> held at its declaration: \<open>2\<close> in bin 0 when it held
  \<open>4\<close> there, and \<open>0\<close> only when it held \<open>0\<close>.
\<close>

theorem poisson_rms_uninitialised:
  "poisson_rms 1 (replicate 52 [Fin 1]) (replicate 52 (Fin 1)) (replicate 52 [Fin 4]) ! 0 ! 0 = Fin 2 \<and>
   poisson_rms 1 (replicate 52 [Fin 1]) (replicate 52 (Fin 1)) (replicate 52 [Fin 0]) ! 0 ! 0 = Fin 0"
  by (simp add: poisson_rms_nth minus_double_def double_of_int_def)

subsection \<open>What runMLEM leaves unchanged\<close>

text \<open>
  C10, as amended. When the measurements, the spectrum and the ratio vector are three
  different vectors, neither the spectrum nor the ratio vector is a row of the response
  matrix, and the vectors cover the indices that \<open>num_measurements\<close> and
  \<open>num_bins\<close> reach, a call of \<open>runMLEM\<close> is defined and leaves the measurements
  vector and the response matrix as they were: the store after the call is the store
  before it with the ratio vector and the spectrum replaced, by the values the record
  model computes, and nothing else changed.
\<close>

theorem runMLEM_h_frame:
  assumes "separate a" and "in_range num_measurements num_bins a h"
  shows
    "runMLEM_h cutoff error num_measurements num_bins a h =
       Some (fst (runMLEM cutoff error num_measurements num_bins (refs_of a h)),
             h(mlem_ratio_at a :=
                 mlem_ratio (snd (runMLEM cutoff error num_measurements num_bins (refs_of a h))),
               spectrum_at a :=
                 spectrum (snd (runMLEM cutoff error num_measurements num_bins (refs_of a h))))) \<and>
     (\<exists>mlem_index h'.
        runMLEM_h cutoff error num_measurements num_bins a h = Some (mlem_index, h') \<and>
        h' (measurements_at a) = h (measurements_at a) \<and>
        map h' (nns_response_at a) = map h (nns_response_at a) \<and>
        (\<forall>x. x \<noteq> spectrum_at a \<longrightarrow> x \<noteq> mlem_ratio_at a \<longrightarrow> h' x = h x))"
proof -
  let ?r = "runMLEM cutoff error num_measurements num_bins (refs_of a h)"
  let ?h' = "h(mlem_ratio_at a := mlem_ratio (snd ?r), spectrum_at a := spectrum (snd ?r))"
  have run: "runMLEM_h cutoff error num_measurements num_bins a h = Some (fst ?r, ?h')"
    unfolding runMLEM_h_def runMLEM_def by (rule mlem_loop_h_eq [OF assms])
  from assms(1) have d: "measurements_at a \<noteq> spectrum_at a" "measurements_at a \<noteq> mlem_ratio_at a"
    "spectrum_at a \<notin> set (nns_response_at a)" "mlem_ratio_at a \<notin> set (nns_response_at a)"
    by (simp_all add: separate_def)
  have m: "?h' (measurements_at a) = h (measurements_at a)"
    using d by simp
  have r: "map ?h' (nns_response_at a) = map h (nns_response_at a)"
    using d by (intro map_cong) auto
  have o: "\<forall>x. x \<noteq> spectrum_at a \<longrightarrow> x \<noteq> mlem_ratio_at a \<longrightarrow> ?h' x = h x"
    by simp
  from run m r o show ?thesis by blast
qed

text \<open>
  C10 as stated fails for a call that passes one vector as both the measurements and
  the spectrum (all indices in range): the spectrum update of the first iteration
  writes into it, and the measurements \<open>[2]\<close> are \<open>[1]\<close> after the call.
\<close>

theorem runMLEM_h_frame_counterexample:
  "in_range 1 1 \<lparr>measurements_at = 0, spectrum_at = 0, nns_response_at = [2], mlem_ratio_at = 1\<rparr>
     (empty_store(0 := [Fin 2], 2 := [Fin 2])) \<and>
   (empty_store(0 := [Fin 2], 2 := [Fin 2])) 0 = [Fin 2] \<and>
   runMLEM_h 2 (Fin (1/100)) 1 1
     \<lparr>measurements_at = 0, spectrum_at = 0, nns_response_at = [2], mlem_ratio_at = 1\<rparr>
     (empty_store(0 := [Fin 2], 2 := [Fin 2])) =
   Some (2, empty_store(0 := [Fin 1], 1 := [Fin (1/2)], 2 := [Fin 2]))"
proof -
  have r: "in_range 1 1 \<lparr>measurements_at = 0, spectrum_at = 0, nns_response_at = [2], mlem_ratio_at = 1\<rparr>
     (empty_store(0 := [Fin 2], 2 := [Fin 2]))"
    by (simp add: in_range_def empty_store_def)
  have v: "runMLEM_h 2 (Fin (1/100)) 1 1
     \<lparr>measurements_at = 0, spectrum_at = 0, nns_response_at = [2], mlem_ratio_at = 1\<rparr>
     (empty_store(0 := [Fin 2], 2 := [Fin 2])) =
   Some (2, empty_store(0 := [Fin 1], 1 := [Fin (1/2)], 2 := [Fin 2]))"
    by (simp add: mlem_eval_h empty_store_def fun_eq_iff)
  from r v show ?thesis by simp
qed

theorem runMLEM_h_frame_witness:
  "separate \<lparr>measurements_at = 0, spectrum_at = 1, nns_response_at = [3], mlem_ratio_at = 2\<rparr> \<and>
   in_range 1 1 \<lparr>measurements_at = 0, spectrum_at = 1, nns_response_at = [3], mlem_ratio_at = 2\<rparr>
     (empty_store(0 := [Fin 2], 1 := [Fin 1], 3 := [Fin 1])) \<and>
   runMLEM_h 2 (Fin (1/100)) 1 1
     \<lparr>measurements_at = 0, spectrum_at = 1, nns_response_at = [3], mlem_ratio_at = 2\<rparr>
     (empty_store(0 := [Fin 2], 1 := [Fin 1], 3 := [Fin 1])) =
   Some (2, empty_store(0 := [Fin 2], 1 := [Fin 2], 2 := [Fin 2], 3 := [Fin 1]))"
proof -
  have s: "separate \<lparr>measurements_at = 0, spectrum_at = 1, nns_response_at = [3], mlem_ratio_at = 2\<rparr>"
    by (simp add: separate_def)
  have r: "in_range 1 1 \<lparr>measurements_at = 0, spectrum_at = 1, nns_response_at = [3], mlem_ratio_at = 2\<rparr>
     (empty_store(0 := [Fin 2], 1 := [Fin 1], 3 := [Fin 1]))"
    by (simp add: in_range_def empty_store_def)
  have v: "runMLEM 2 (Fin (1/100)) 1 1 (refs_of \<lparr>measurements_at = 0, spectrum_at = 1, nns_response_at = [3], mlem_ratio_at = 2\<rparr>
     (empty_store(0 := [Fin 2], 1 := [Fin 1], 3 := [Fin 1]))) =
    (2, \<lparr>measurements = [Fin 2], spectrum = [Fin 2], nns_response = [[Fin 1]], mlem_ratio = [Fin 2]\<rparr>)"
    by (simp add: refs_of_def mlem_eval empty_store_def)
  from runMLEM_h_frame [OF s r, of 2 "Fin (1/100)", THEN conjunct1, unfolded v] s r
  show ?thesis
    by (simp add: fun_eq_iff)
qed

end
